theory Spec2Isabelle
  imports Main "HOL-Library.Sublist"
begin

section \<open>Text: Python string operations used by the parsers\<close>

text \<open>
  The parsers of \<^verbatim>\<open>parsers.py\<close> work on Python \<^verbatim>\<open>str\<close> values. A character
  is modelled as a \<^typ>\<open>char\<close>, that is a code point below 256 (the range the
  \<^verbatim>\<open>latin-1\<close> family of the candidate encodings decodes to); the character classes below
  are Python's classes restricted to that range.
\<close>

definition dq :: char where
  "dq = CHR 0x22"

definition apos :: char where
  "apos = CHR 0x27"

text \<open>\<^verbatim>\<open>sub in s\<close>\<close>

fun contains :: "string \<Rightarrow> string \<Rightarrow> bool" where
  "contains sub [] = (sub = [])"
| "contains sub (c # cs) = (prefix sub (c # cs) \<or> contains sub cs)"

text \<open>\<^verbatim>\<open>s.startswith(p)\<close>\<close>

definition startswith :: "string \<Rightarrow> string \<Rightarrow> bool" where
  "startswith s p = prefix p s"

text \<open>A character below 128; the tests on the other characters go through the code point.\<close>

definition ascii :: "char \<Rightarrow> bool" where
  "ascii c = (\<not> digit7 c)"

text \<open>\<^verbatim>\<open>str.isspace\<close> on one character; also the class \<^verbatim>\<open>\s\<close> of \<^verbatim>\<open>re\<close>: the code points 9
  to 13, 28 to 32, 133 and 160.\<close>

definition is_space :: "char \<Rightarrow> bool" where
  "is_space c =
     (if ascii c
      then c \<in> set [CHR 0x09, CHR 0x0A, CHR 0x0B, CHR 0x0C, CHR 0x0D,
                     CHR 0x1C, CHR 0x1D, CHR 0x1E, CHR 0x1F, CHR 0x20]
      else (let n = (of_char c :: nat) in n = 133 \<or> n = 160))"

text \<open>\<^verbatim>\<open>s.strip()\<close>\<close>

definition strip :: "string \<Rightarrow> string" where
  "strip s = rev (dropWhile is_space (rev (dropWhile is_space s)))"

text \<open>\<^verbatim>\<open>s.lower()\<close>\<close>

definition lower_chr :: "char \<Rightarrow> char" where
  "lower_chr c =
     (if ascii c
      then (case map_of (zip ''ABCDEFGHIJKLMNOPQRSTUVWXYZ'' ''abcdefghijklmnopqrstuvwxyz'') c of
              Some l \<Rightarrow> l | None \<Rightarrow> c)
      else (let n = (of_char c :: nat) in
              if 192 \<le> n \<and> n \<le> 222 \<and> n \<noteq> 215 then char_of (n + 32) else c))"

definition lower :: "string \<Rightarrow> string" where
  "lower s = map lower_chr s"

text \<open>The classes \<^verbatim>\<open>\d\<close>, \<^verbatim>\<open>\w\<close>, \<^verbatim>\<open>.\<close>, \<^verbatim>\<open>[^"]\<close>, \<^verbatim>\<open>[^,]\<close> and
  \<^verbatim>\<open>[0-9A-Fa-f]\<close>.\<close>

definition digit :: "char \<Rightarrow> bool" where
  "digit c = (c \<in> set ''0123456789'')"

definition word_chr :: "char \<Rightarrow> bool" where
  "word_chr c =
     (if ascii c
      then c \<in> set ''abcdefghijklmnopqrstuvwxyzABCDEFGHIJKLMNOPQRSTUVWXYZ0123456789_''
      else (let n = (of_char c :: nat) in
              n = 170 \<or> n = 178 \<or> n = 179 \<or> n = 181 \<or> n = 185 \<or> n = 186 \<or>
              (188 \<le> n \<and> n \<le> 190) \<or> (192 \<le> n \<and> n \<noteq> 215 \<and> n \<noteq> 247)))"

definition any_chr :: "char \<Rightarrow> bool" where
  "any_chr c = (c \<noteq> CHR 0x0A)"

definition not_dq :: "char \<Rightarrow> bool" where
  "not_dq c = (c \<noteq> dq)"

definition not_comma :: "char \<Rightarrow> bool" where
  "not_comma c = (c \<noteq> CHR '','')"

definition hex_chr :: "char \<Rightarrow> bool" where
  "hex_chr c = (c \<in> set ''0123456789ABCDEFabcdef'')"

text \<open>\<^verbatim>\<open>s.split(sep)[1]\<close> for a separator that occurs in \<^verbatim>\<open>s\<close>: the text between the
  first occurrence of the separator and the next one (or the end).\<close>

fun before_sep :: "string \<Rightarrow> string \<Rightarrow> string" where
  "before_sep sep [] = []"
| "before_sep sep (c # cs) = (if prefix sep (c # cs) then [] else c # before_sep sep cs)"

fun after_sep :: "string \<Rightarrow> string \<Rightarrow> string" where
  "after_sep sep [] = []"
| "after_sep sep (c # cs) =
     (if prefix sep (c # cs) then drop (length sep) (c # cs) else after_sep sep cs)"

definition split_second :: "string \<Rightarrow> string \<Rightarrow> string" where
  "split_second sep s = before_sep sep (after_sep sep s)"

text \<open>\<^verbatim>\<open>s.split(' ', n)\<close>: at most \<open>n\<close> cuts, each at one single separator character.\<close>

fun split_max :: "char \<Rightarrow> nat \<Rightarrow> string \<Rightarrow> string list" where
  "split_max sep 0 s = [s]"
| "split_max sep (Suc n) s =
     (if sep \<in> set s
      then takeWhile (\<lambda>c. c \<noteq> sep) s # split_max sep n (tl (dropWhile (\<lambda>c. c \<noteq> sep) s))
      else [s])"

text \<open>\<^verbatim>\<open>s.splitlines()\<close>: the line boundaries are LF, CR, CR LF, VT, FF, FS, GS, RS and NEL;
  no empty last line.\<close>

definition is_linebreak :: "char \<Rightarrow> bool" where
  "is_linebreak c =
     (if ascii c
      then c \<in> set [CHR 0x0A, CHR 0x0B, CHR 0x0C, CHR 0x0D, CHR 0x1C, CHR 0x1D, CHR 0x1E]
      else (of_char c :: nat) = 133)"

fun splitlines_from :: "string \<Rightarrow> string \<Rightarrow> string list" where
  "splitlines_from cur [] = (if cur = [] then [] else [cur])"
| "splitlines_from cur [c] = (if is_linebreak c then [cur] else [cur @ [c]])"
| "splitlines_from cur (c # d # cs) =
     (if c = CHR 0x0D \<and> d = CHR 0x0A then cur # splitlines_from [] cs
      else if is_linebreak c then cur # splitlines_from [] (d # cs)
      else splitlines_from (cur @ [c]) (d # cs))"

definition splitlines :: "string \<Rightarrow> string list" where
  "splitlines s = splitlines_from [] s"

text \<open>
  \<^verbatim>\<open>int(s)\<close> on a string of decimal digits, and \<^verbatim>\<open>str(n)\<close> (as in an f-string). Python
  limits the conversion of a decimal string to an integer: with more than 4300 digits
  (the default of \<^verbatim>\<open>sys.get_int_max_str_digits()\<close>, which the program never changes)
  \<^verbatim>\<open>int\<close> raises \<^verbatim>\<open>ValueError\<close>.
\<close>

datatype py_error = ValueError

definition max_str_digits :: nat where
  "max_str_digits = 4300"

definition digit_val :: "char \<Rightarrow> nat" where
  "digit_val c = of_char c - 48"

definition digits_value :: "string \<Rightarrow> nat" where
  "digits_value s = foldl (\<lambda>a c. 10 * a + digit_val c) 0 s"

definition int_of_digits :: "string \<Rightarrow> py_error + nat" where
  "int_of_digits s = (if max_str_digits < length s then Inl ValueError else Inr (digits_value s))"

function str_of_nat :: "nat \<Rightarrow> string" where
  "str_of_nat n =
     (if n < 10 then [char_of (48 + n)] else str_of_nat (n div 10) @ [char_of (48 + n mod 10)])"
  by pat_completeness auto
termination
  by (relation "measure id") auto

section \<open>Regular expressions: the fragment of \<^verbatim>\<open>re\<close> the parsers use\<close>

text \<open>
  A pattern is a sequence of items: a literal, a literal under \<^verbatim>\<open>re.IGNORECASE\<close>, a
  character class with a repetition range (greedy or lazy), a capturing group and an
  alternation. \<open>ms\<close> lists every way the pattern matches a prefix of the text, in the
  order a backtracking matcher tries them, each with the texts of the groups and the
  remaining text; the match \<^verbatim>\<open>re\<close> reports is the first one.
\<close>

text \<open>A literal under \<^verbatim>\<open>re.IGNORECASE\<close> at the start of the text: character by
  character, up to case.\<close>

fun iprefix :: "string \<Rightarrow> string \<Rightarrow> bool" where
  "iprefix [] s = True"
| "iprefix (c # cs) [] = False"
| "iprefix (c # cs) (d # ds) = (if lower_chr c = lower_chr d then iprefix cs ds else False)"

datatype rx =
    Lit string
  | ILit string
  | Rep "char \<Rightarrow> bool" nat "nat option" bool
  | Grp "rx list"
  | Alt "rx list list"

definition counts :: "(char \<Rightarrow> bool) \<Rightarrow> nat \<Rightarrow> nat option \<Rightarrow> bool \<Rightarrow> string \<Rightarrow> nat list" where
  "counts p lo hi greedy s =
     (let n = length (takeWhile p s);
          m = (case hi of None \<Rightarrow> n | Some h \<Rightarrow> min h n)
      in if greedy then rev [lo..<Suc m] else [lo..<Suc m])"

fun ms :: "rx list \<Rightarrow> string \<Rightarrow> (string list \<times> string) list" where
  "ms [] s = [([], s)]"
| "ms (Lit l # rs) s = (if prefix l s then ms rs (drop (length l) s) else [])"
| "ms (ILit l # rs) s =
     (if iprefix l s then ms rs (drop (length l) s) else [])"
| "ms (Rep p lo hi greedy # rs) s =
     concat (map (\<lambda>k. ms rs (drop k s)) (counts p lo hi greedy s))"
| "ms (Grp g # rs) s =
     concat (map (\<lambda>(cs, s').
        map (\<lambda>(cs', s''). (take (length s - length s') s # cs @ cs', s'')) (ms rs s'))
       (ms g s))"
| "ms (Alt as # rs) s =
     concat (map (\<lambda>a. concat (map (\<lambda>(cs, s').
        map (\<lambda>(cs', s''). (cs @ cs', s'')) (ms rs s')) (ms a s))) as)"

text \<open>\<^verbatim>\<open>pattern.match(s)\<close>: the groups of the first match at the start of the text, group 0
  (the whole match) first.\<close>

definition match_at :: "rx list \<Rightarrow> string \<Rightarrow> string list option" where
  "match_at rs s =
     (case ms rs s of [] \<Rightarrow> None
      | (cs, s') # _ \<Rightarrow> Some (take (length s - length s') s # cs))"

text \<open>\<^verbatim>\<open>re.search(pattern, s)\<close>: the match at the leftmost position that has one.\<close>

fun search :: "rx list \<Rightarrow> string \<Rightarrow> string list option" where
  "search rs [] = match_at rs []"
| "search rs (c # cs) =
     (case match_at rs (c # cs) of Some m \<Rightarrow> Some m | None \<Rightarrow> search rs cs)"

text \<open>\<^verbatim>\<open>m.group(k)\<close>; every pattern below has the groups the code asks for.\<close>

definition grp :: "string list \<Rightarrow> nat \<Rightarrow> string" where
  "grp m k = m ! k"

text \<open>\<^verbatim>\<open>re.findall(pattern, s)\<close> for a pattern with one group: group 1 of each match, the
  scan going on where the match ended (one character further after an empty match).\<close>

function findall :: "rx list \<Rightarrow> string \<Rightarrow> string list" where
  "findall rs [] = (case match_at rs [] of None \<Rightarrow> [] | Some m \<Rightarrow> [grp m 1])"
| "findall rs (c # cs) =
     (case match_at rs (c # cs) of
        None \<Rightarrow> findall rs cs
      | Some m \<Rightarrow> grp m 1 # findall rs (drop (max 1 (length (grp m 0))) (c # cs)))"
  by pat_completeness auto
termination
  by (relation "measure (\<lambda>(rs, s). length s)") auto

section \<open>Journal parsing, flat mode: \<^verbatim>\<open>JournalParser.parse_journal\<close>\<close>

datatype category =
    Control | Header | Event | Command | Journal | Comment | Unknown
  | BIG_GAP | Error | Performance | Model

text \<open>The dictionary \<^verbatim>\<open>current_model_info\<close>: the key \<^verbatim>\<open>timestamp\<close> is always set, every
  other key may be missing.\<close>

record model_info =
  mi_timestamp :: string
  mi_path :: "string option"
  mi_region :: "string option"
  mi_server :: "string option"
  mi_is_server_path :: "string option"
  mi_username :: "string option"

record entry =
  e_category :: category
  e_content :: string
  e_timestamp :: string
  e_command :: string
  e_model_info :: "model_info option"

text \<open>The local variables of the loop over the lines; \<^verbatim>\<open>current_model_info = {}\<close> is
  \<open>None\<close>.\<close>

record jstate =
  parsed_data :: "entry list"
  last_timestamp :: string
  models_info :: "model_info list"
  current_model_info :: "model_info option"
  current_command :: string

definition init_jstate :: jstate where
  "init_jstate = \<lparr>parsed_data = [], last_timestamp = [], models_info = [],
     current_model_info = None, current_command = []\<rparr>"

text \<open>\<^verbatim>\<open>\d+-\w+-\d+ \d+:\d+:\d+\.\d+\<close>\<close>

definition timestamp_rx :: "rx list" where
  "timestamp_rx =
     [Rep digit 1 None True, Lit ''-'', Rep word_chr 1 None True, Lit ''-'',
      Rep digit 1 None True, Lit '' '', Rep digit 1 None True, Lit '':'',
      Rep digit 1 None True, Lit '':'', Rep digit 1 None True, Lit ''.'',
      Rep digit 1 None True]"

text \<open>\<^verbatim>\<open>Jrn\.Command\s+"([^"]+)"\s*,\s*"([^"]+)"\<close>\<close>

definition command_rx :: "rx list" where
  "command_rx =
     [Lit ''Jrn.Command'', Rep is_space 1 None True, Lit [dq],
      Grp [Rep not_dq 1 None True], Lit [dq], Rep is_space 0 None True, Lit '','',
      Rep is_space 0 None True, Lit [dq], Grp [Rep not_dq 1 None True], Lit [dq]]"

text \<open>\<^verbatim>\<open>(\d+\.\d+)!!!\<close>\<close>

definition gap_rx :: "rx list" where
  "gap_rx = [Grp [Rep digit 1 None True, Lit ''.'', Rep digit 1 None True], Lit ''!!!'']"

text \<open>\<^verbatim>\<open>Path = "([^"]+\.rvt)"\<close>, \<^verbatim>\<open>Region = "([^"]+)"\<close>, \<^verbatim>\<open>Central server = "([^"]*)"\<close>,
  \<^verbatim>\<open>Is server path = (\w+)\<close> and \<^verbatim>\<open>User's Name ([^,]+),\<close>\<close>

definition path_rx :: "rx list" where
  "path_rx = [Lit (''Path = '' @ [dq]), Grp [Rep not_dq 1 None True, Lit ''.rvt''], Lit [dq]]"

definition region_rx :: "rx list" where
  "region_rx = [Lit (''Region = '' @ [dq]), Grp [Rep not_dq 1 None True], Lit [dq]]"

definition server_rx :: "rx list" where
  "server_rx = [Lit (''Central server = '' @ [dq]), Grp [Rep not_dq 0 None True], Lit [dq]]"

definition server_path_rx :: "rx list" where
  "server_path_rx = [Lit ''Is server path = '', Grp [Rep word_chr 1 None True]]"

definition user_rx :: "rx list" where
  "user_rx = [Lit (''User'' @ [apos] @ ''s Name ''), Grp [Rep not_comma 1 None True], Lit '','']"

text \<open>Lines 149 to 166: the category from the prefix of the line.\<close>

definition prefix_category :: "string \<Rightarrow> category" where
  "prefix_category line =
     (if startswith line (apos # ''C'') then Control
      else if startswith line (apos # ''H'') then Header
      else if startswith line (apos # ''E'') then Event
      else if startswith line ''Jrn.Command'' then Command
      else if startswith line ''Jrn.'' then Journal
      else if startswith line [apos] then Comment
      else Unknown)"

text \<open>Lines 169 to 187: the categories decided by the content, which replace the one from
  the prefix.\<close>

definition content_category :: "category \<Rightarrow> string \<Rightarrow> category" where
  "content_category cat line =
     (if contains ''BIG_GAP'' line \<or> contains ''!!!BIG_GAP'' line then BIG_GAP
      else if contains ''Unrecoverable error'' line then Error
      else if contains ''exception'' (lower line) then Error
      else if contains ''API_ERROR'' line then Error
      else if contains ''Error posted'' line then Error
      else if contains ''RAM Statistics'' line \<or> contains ''VM Statistics'' line then Performance
      else if contains ''Delta VM'' line \<or> contains ''Delta RAM'' line then Performance
      else cat)"

text \<open>Lines 169 to 175: a BIG_GAP line with a gap time is rewritten.\<close>

definition annotate_gap :: "string \<Rightarrow> string" where
  "annotate_gap line =
     (if contains ''BIG_GAP'' line \<or> contains ''!!!BIG_GAP'' line
      then (case search gap_rx line of
              Some m \<Rightarrow> ''BIG GAP: '' @ grp m 1 @ '' seconds - '' @ line
            | None \<Rightarrow> line)
      else line)"

text \<open>Lines 190 to 216: the dictionary built on a \<^verbatim>\<open>ModelPath Created\<close> line;
  \<open>unquote\<close> is \<^verbatim>\<open>urllib.parse.unquote\<close>.\<close>

definition is_model_line :: "string \<Rightarrow> bool" where
  "is_model_line line =
     (contains ''ModelPath Created'' line \<and> contains ''Path = '' line \<and> contains ''.rvt'' line)"

definition new_model_info :: "(string \<Rightarrow> string) \<Rightarrow> string \<Rightarrow> string \<Rightarrow> model_info" where
  "new_model_info unquote timestamp line =
     \<lparr>mi_timestamp = timestamp,
      mi_path = map_option (\<lambda>m. unquote (grp m 1)) (search path_rx line),
      mi_region = map_option (\<lambda>m. grp m 1) (search region_rx line),
      mi_server = map_option (\<lambda>m. grp m 1) (search server_rx line),
      mi_is_server_path =
        map_option (\<lambda>m. if lower (grp m 1) = ''true'' then ''True'' else ''False'')
          (search server_path_rx line),
      mi_username = None\<rparr>"

text \<open>Lines 226 to 233: the user name of a line, and its assignment to the models that
  have none.\<close>

definition user_of_line :: "string \<Rightarrow> string option" where
  "user_of_line line =
     (if contains (''User'' @ [apos] @ ''s Name '') line
      then map_option (\<lambda>m. grp m 1) (search user_rx line)
      else None)"

definition set_username :: "string \<Rightarrow> model_info \<Rightarrow> model_info" where
  "set_username username model =
     (if mi_username model = None then model\<lparr>mi_username := Some username\<rparr> else model)"

text \<open>The body of the loop, lines 135 to 255.\<close>

definition journal_line :: "(string \<Rightarrow> string) \<Rightarrow> jstate \<Rightarrow> string \<Rightarrow> jstate" where
  "journal_line unquote st raw =
     (let line0 = strip raw;
          timestamp = (case search timestamp_rx line0 of
                         Some m \<Rightarrow> grp m 0 | None \<Rightarrow> last_timestamp st);
          cat0 = prefix_category line0;
          command1 = (if cat0 = Command
                      then (case search command_rx line0 of
                              Some m \<Rightarrow> grp m 1 @ '': '' @ grp m 2
                            | None \<Rightarrow> current_command st)
                      else current_command st);
          cat1 = content_category cat0 line0;
          line = annotate_gap line0;
          model = (if is_model_line line
                   then Some (new_model_info unquote timestamp line)
                   else current_model_info st);
          recorded = (is_model_line line \<and> mi_path (new_model_info unquote timestamp line) \<noteq> None);
          models1 = (if recorded
                     then models_info st @ [new_model_info unquote timestamp line]
                     else models_info st);
          cat2 = (if recorded then Model else cat1);
          models2 = (case user_of_line line of
                       Some username \<Rightarrow> map (set_username username) models1
                     | None \<Rightarrow> models1);
          new_entry = \<lparr>e_category = cat2, e_content = line, e_timestamp = timestamp,
                    e_command = (if cat2 = Command then command1 else []),
                    e_model_info = (if cat2 = Model then model else None)\<rparr>
      in \<lparr>parsed_data = parsed_data st @ [new_entry],
          last_timestamp = timestamp,
          models_info = models2,
          current_model_info = model,
          current_command = (if cat2 = Command then [] else command1)\<rparr>)"

text \<open>The loop over the lines of the file.\<close>

fun journal_lines :: "(string \<Rightarrow> string) \<Rightarrow> jstate \<Rightarrow> string list \<Rightarrow> jstate" where
  "journal_lines unquote st [] = st"
| "journal_lines unquote st (raw # raws) =
     journal_lines unquote (journal_line unquote st raw) raws"

text \<open>
  Opening and reading the file under an encoding either gives its lines or raises; the
  reader is a parameter of the model. \<^verbatim>\<open>parse_journal\<close> goes to the next encoding after a
  \<^verbatim>\<open>UnicodeDecodeError\<close> and leaves the loop after any other exception; in both cases it
  ends with a call of \<^verbatim>\<open>ErrorHandler.show_error\<close> and returns the empty list. The result is
  the message shown, if any, and the list returned.
\<close>

datatype exn = UnicodeDecodeError string | OtherException string

fun exn_str :: "exn \<Rightarrow> string" where
  "exn_str (UnicodeDecodeError msg) = msg"
| "exn_str (OtherException msg) = msg"

type_synonym reader = "string \<Rightarrow> exn + string list"

definition encodings :: "string list" where
  "encodings = [''utf-8'', ''latin-1'', ''cp1252'', ''iso-8859-1'']"

definition journal_failure :: "exn option \<Rightarrow> string option \<times> entry list" where
  "journal_failure last_exception =
     (case last_exception of
        Some e \<Rightarrow> (Some (''Failed to parse journal file:'' @ [CHR 0x0A] @ exn_str e), [])
      | None \<Rightarrow> (Some ''Failed to parse journal file with any encoding'', []))"

fun parse_journal_loop ::
  "(string \<Rightarrow> string) \<Rightarrow> reader \<Rightarrow> string list \<Rightarrow> exn option \<Rightarrow> string option \<times> entry list" where
  "parse_journal_loop unquote read [] last_exception = journal_failure last_exception"
| "parse_journal_loop unquote read (encoding # rest) last_exception =
     (case read encoding of
        Inr raws \<Rightarrow> (None, parsed_data (journal_lines unquote init_jstate raws))
      | Inl (UnicodeDecodeError msg) \<Rightarrow>
          parse_journal_loop unquote read rest (Some (UnicodeDecodeError msg))
      | Inl (OtherException msg) \<Rightarrow> journal_failure (Some (OtherException msg)))"

definition parse_journal :: "(string \<Rightarrow> string) \<Rightarrow> reader \<Rightarrow> string option \<times> entry list" where
  "parse_journal unquote read = parse_journal_loop unquote read encodings None"

section \<open>Journal parsing with models: \<^verbatim>\<open>JournalParser.parse_journal_with_models\<close>\<close>

record mline =
  l_timestamp :: "string option"
  l_category :: category
  l_content :: string
  l_model :: string

record header =
  h_build :: "string option"
  h_branch :: "string option"
  h_release :: "string option"
  h_username :: "string option"

record mstate =
  models :: "string list"
  model_handles :: "string \<rightharpoonup> string"
  categorized_lines :: "mline list"
  header_info :: header
  current_model :: string

record journal_doc =
  doc_header :: header
  doc_models :: "string list"
  doc_lines :: "mline list"

definition init_mstate :: mstate where
  "init_mstate = \<lparr>models = [], model_handles = Map.empty, categorized_lines = [],
     header_info = \<lparr>h_build = None, h_branch = None, h_release = None, h_username = None\<rparr>,
     current_model = ''All models''\<rparr>"

text \<open>\<^verbatim>\<open>Username\s*,\s*"([^"]+)"\<close> and \<^verbatim>\<open>\(this=(0x[0-9A-Fa-f]+)\)\<close>\<close>

definition username_rx :: "rx list" where
  "username_rx =
     [Lit ''Username'', Rep is_space 0 None True, Lit '','', Rep is_space 0 None True,
      Lit [dq], Grp [Rep not_dq 1 None True], Lit [dq]]"

definition handle_rx :: "rx list" where
  "handle_rx = [Lit ''(this='', Grp [Lit ''0x'', Rep hex_chr 1 None True], Lit '')'']"

text \<open>Lines 310 to 321: the header information of a line.\<close>

definition header_line :: "header \<Rightarrow> string \<Rightarrow> header" where
  "header_line h line =
     (if contains ''Build:'' line then h\<lparr>h_build := Some (strip (split_second ''Build:'' line))\<rparr>
      else if contains ''Branch:'' line
        then h\<lparr>h_branch := Some (strip (split_second ''Branch:'' line))\<rparr>
      else if contains ''Release:'' line
        then h\<lparr>h_release := Some (strip (split_second ''Release:'' line))\<rparr>
      else if contains ''Username'' line
        then (case search username_rx line of
                Some m \<Rightarrow> h\<lparr>h_username := Some (grp m 1)\<rparr>
              | None \<Rightarrow> h\<lparr>h_username := Some ''Unknown''\<rparr>)
      else h)"

text \<open>Lines 356 to 371: the content rules of this mode, with the model rule last.\<close>

definition content_category_models :: "category \<Rightarrow> string \<Rightarrow> category" where
  "content_category_models cat line =
     (if contains ''BIG_GAP'' line \<or> contains ''!!!BIG_GAP'' line then BIG_GAP
      else if contains ''Unrecoverable error'' line then Error
      else if contains ''exception'' (lower line) then Error
      else if contains ''API_ERROR'' line then Error
      else if contains ''Error posted'' line then Error
      else if contains ''RAM Statistics'' line \<or> contains ''VM Statistics'' line then Performance
      else if contains ''Delta VM'' line \<or> contains ''Delta RAM'' line then Performance
      else if contains ''ModelPath Created'' line then Model
      else cat)"

text \<open>The body of the loop, lines 307 to 378.\<close>

definition models_line :: "(string \<Rightarrow> string) \<Rightarrow> mstate \<Rightarrow> string \<Rightarrow> mstate" where
  "models_line unquote st raw =
     (let line = strip raw;
          header1 = header_line (header_info st) line;
          model_match = (if contains ''ModelPath Created'' line then search path_rx line else None);
          models1 = (case model_match of
                       Some m \<Rightarrow> models st @ [unquote (grp m 1)] | None \<Rightarrow> models st);
          current1 = (case model_match of
                        Some m \<Rightarrow> unquote (grp m 1) | None \<Rightarrow> current_model st);
          handles1 = (case search handle_rx line of
                        Some m \<Rightarrow> (model_handles st)(grp m 1 \<mapsto> current1)
                      | None \<Rightarrow> model_handles st);
          timestamp_match = search timestamp_rx line;
          category = content_category_models (prefix_category line) line;
          new_line = \<lparr>l_timestamp = map_option (\<lambda>m. grp m 0) timestamp_match,
                      l_category = category, l_content = line, l_model = current1\<rparr>
      in \<lparr>models = models1, model_handles = handles1,
          categorized_lines = categorized_lines st @ [new_line],
          header_info = header1, current_model = current1\<rparr>)"

fun models_lines :: "(string \<Rightarrow> string) \<Rightarrow> mstate \<Rightarrow> string list \<Rightarrow> mstate" where
  "models_lines unquote st [] = st"
| "models_lines unquote st (raw # raws) = models_lines unquote (models_line unquote st raw) raws"

definition journal_document :: "(string \<Rightarrow> string) \<Rightarrow> string list \<Rightarrow> journal_doc" where
  "journal_document unquote raws =
     (let st = models_lines unquote init_mstate raws
      in \<lparr>doc_header = header_info st, doc_models = ''All models'' # models st,
          doc_lines = categorized_lines st\<rparr>)"

text \<open>
  The loop over the encodings, lines 294 to 399: every exception leads to the next
  encoding; after the last one \<^verbatim>\<open>RuntimeError\<close> is raised from the last exception. The
  result is the exception raised (\<open>Inl\<close>) or the value returned, \<open>None\<close> where the function
  ends without a \<^verbatim>\<open>return\<close>.
\<close>

datatype fatal = RuntimeError string exn

fun parse_models_loop ::
  "(string \<Rightarrow> string) \<Rightarrow> reader \<Rightarrow> string list \<Rightarrow> exn option \<Rightarrow> fatal + journal_doc option" where
  "parse_models_loop unquote read [] last_exception =
     (case last_exception of
        Some e \<Rightarrow> Inl (RuntimeError ''Failed to parse journal file'' e)
      | None \<Rightarrow> Inr None)"
| "parse_models_loop unquote read (encoding # rest) last_exception =
     (case read encoding of
        Inr raws \<Rightarrow> Inr (Some (journal_document unquote raws))
      | Inl e \<Rightarrow> parse_models_loop unquote read rest (Some e))"

definition parse_journal_with_models ::
  "(string \<Rightarrow> string) \<Rightarrow> reader \<Rightarrow> fatal + journal_doc option" where
  "parse_journal_with_models unquote read = parse_models_loop unquote read encodings None"

section \<open>Worker logs: \<^verbatim>\<open>WorkerLogParser.parse_worker_log\<close>\<close>

record worker_entry =
  w_timestamp :: string
  w_level :: string
  w_message :: string

text \<open>Lines 425 to 433: the loop over the lines.\<close>

fun worker_lines :: "worker_entry list \<Rightarrow> string list \<Rightarrow> worker_entry list" where
  "worker_lines entries [] = entries"
| "worker_lines entries (line # rest) =
     worker_lines
       (case split_max CHR '' '' 2 (strip line) of
          [timestamp, level, message] \<Rightarrow>
            entries @ [\<lparr>w_timestamp = timestamp, w_level = level, w_message = message\<rparr>]
        | _ \<Rightarrow> entries)
       rest"

text \<open>\<open>exists\<close> is \<^verbatim>\<open>os.path.exists(file_path)\<close>, \<open>read\<close> what opening and reading the file
  gives. The result is \<open>None\<close> for Python's \<^verbatim>\<open>None\<close>, else the list under the key
  \<^verbatim>\<open>entries\<close>.\<close>

definition parse_worker_log :: "bool \<Rightarrow> exn + string list \<Rightarrow> worker_entry list option" where
  "parse_worker_log exists read =
     (if \<not> exists then None
      else (case read of Inl e \<Rightarrow> None | Inr raws \<Rightarrow> Some (worker_lines [] raws)))"

section \<open>HTML warnings: \<^verbatim>\<open>HTMLParser.parse\<close>\<close>

text \<open>
  BeautifulSoup does the parsing of the HTML text. Its result is the input of the model:
  the rows (\<^verbatim>\<open>tr\<close>) of the first table, if there is a table, each row the list of its
  cells (\<^verbatim>\<open>td\<close>), each cell its text (\<^verbatim>\<open>get_text(strip=True)\<close>) and its strings
  (\<^verbatim>\<open>stripped_strings\<close>). \<open>clock k\<close> is the text of the \<open>k\<close>-th call of
  \<^verbatim>\<open>datetime.now().isoformat()\<close>.
\<close>

record cell =
  get_text :: string
  stripped_strings :: "string list"

type_synonym row = "cell list"

record warning =
  index :: nat
  message :: string
  elements :: "string list"
  ids :: "string list"
  status :: string
  created_date :: string
  modified_date :: string

text \<open>\<^verbatim>\<open>id (\d+)\<close>\<close>

definition id_rx :: "rx list" where
  "id_rx = [Lit ''id '', Grp [Rep digit 1 None True]]"

text \<open>Lines 72 to 95: the loop \<^verbatim>\<open>for i, row in enumerate(rows[1:], 1)\<close>.\<close>

fun html_rows :: "(nat \<Rightarrow> string) \<Rightarrow> nat \<Rightarrow> nat \<Rightarrow> warning list \<Rightarrow> row list \<Rightarrow> warning list" where
  "html_rows clock k i warnings [] = warnings"
| "html_rows clock k i warnings (cells # rest) =
     (if length cells = 2
      then html_rows clock (k + 2) (i + 1)
             (warnings @
              [\<lparr>index = i,
                message = get_text (cells ! 0),
                elements = map strip (stripped_strings (cells ! 1)),
                ids = concat (map (findall id_rx) (map strip (stripped_strings (cells ! 1)))),
                status = ''Open'',
                created_date = clock k,
                modified_date = clock (k + 1)\<rparr>])
             rest
      else html_rows clock k (i + 1) warnings rest)"

text \<open>The result is the message shown by \<^verbatim>\<open>ErrorHandler.show_error\<close>, if any, and the list
  returned.\<close>

definition html_parse ::
  "bool \<Rightarrow> (nat \<Rightarrow> string) \<Rightarrow> row list option \<Rightarrow> string option \<times> warning list" where
  "html_parse bs4_available clock table =
     (if \<not> bs4_available
      then (Some (''BeautifulSoup4 is not available.'' @ [CHR 0x0A, CHR 0x0A] @
                  ''Install it using:'' @ [CHR 0x0A] @ ''pip install beautifulsoup4''), [])
      else (case table of
              None \<Rightarrow> (Some ''Could not find a <table> in the HTML content.'', [])
            | Some rows \<Rightarrow> (None, html_rows clock 0 1 [] (drop 1 rows))))"

section \<open>Problems of a journal: \<^verbatim>\<open>JournalProblemFinder.find_problems\<close>\<close>

record problem =
  p_timestamp :: string
  p_type :: string
  p_source :: string
  p_description :: string

record finder =
  time_threshold_sec :: int
  ram_spike_mb :: int

definition default_finder :: finder where
  "default_finder = \<lparr>time_threshold_sec = 10, ram_spike_mb = 500\<rparr>"

text \<open>The patterns of lines 449 to 453: \<^verbatim>\<open>error|exception|fail|cannot\<close> and
  \<^verbatim>\<open>slightly off axis\<close> under \<^verbatim>\<open>re.IGNORECASE\<close>, \<^verbatim>\<open>API_WARNING\<close>,
  \<^verbatim>\<open>RAM:.*?Used \+(\d+) MB\<close> and
  \<^verbatim>\<open>^'C (\d{2}-\w{3}-\d{4} \d{2}:\d{2}:\d{2}\.\d{3});\s*(.*)\<close>.\<close>

definition ERROR_rx :: "rx list" where
  "ERROR_rx = [Alt [[ILit ''error''], [ILit ''exception''], [ILit ''fail''], [ILit ''cannot'']]]"

definition API_WARNING_rx :: "rx list" where
  "API_WARNING_rx = [Lit ''API_WARNING'']"

definition PERFORMANCE_rx :: "rx list" where
  "PERFORMANCE_rx = [ILit ''slightly off axis'']"

definition RESOURCE_SPIKE_rx :: "rx list" where
  "RESOURCE_SPIKE_rx =
     [Lit ''RAM:'', Rep any_chr 0 None False, Lit ''Used +'', Grp [Rep digit 1 None True],
      Lit '' MB'']"

definition TIMESTAMP_rx :: "rx list" where
  "TIMESTAMP_rx =
     [Lit (apos # ''C ''),
      Grp [Rep digit 2 (Some 2) True, Lit ''-'', Rep word_chr 3 (Some 3) True, Lit ''-'',
           Rep digit 4 (Some 4) True, Lit '' '', Rep digit 2 (Some 2) True, Lit '':'',
           Rep digit 2 (Some 2) True, Lit '':'', Rep digit 2 (Some 2) True, Lit ''.'',
           Rep digit 3 (Some 3) True],
      Lit '';'', Rep is_space 0 None True, Grp [Rep any_chr 0 None True]]"

text \<open>\<^verbatim>\<open>last_timestamp or "Unknown"\<close> and \<^verbatim>\<open>line[:n] + ("..." if len(line) > n else "")\<close>\<close>

definition timestamp_label :: "string option \<Rightarrow> string" where
  "timestamp_label last_ts =
     (case last_ts of
        None \<Rightarrow> ''Unknown''
      | Some t \<Rightarrow> if t = [] then ''Unknown'' else t)"

definition truncated :: "nat \<Rightarrow> string \<Rightarrow> string" where
  "truncated n line = take n line @ (if length line > n then ''...'' else [])"

text \<open>The body of the loop, lines 473 to 516: the state is the list of problems and the
  last timestamp. The \<^verbatim>\<open>ValueError\<close> of \<^verbatim>\<open>int\<close> is not caught: it ends the loop and
  \<^verbatim>\<open>find_problems\<close> with it, and the result is then the exception (\<open>Inl\<close>).\<close>

definition problems_line ::
  "finder \<Rightarrow> problem list \<times> string option \<Rightarrow> string \<Rightarrow> py_error + problem list \<times> string option" where
  "problems_line cfg st line =
     (let last_ts = (case match_at TIMESTAMP_rx line of
                              Some m \<Rightarrow> Some (grp m 1) | None \<Rightarrow> snd st);
          problems1 = (if search ERROR_rx line \<noteq> None
                       then fst st @
                            [\<lparr>p_timestamp = timestamp_label last_ts, p_type = ''Error'',
                              p_source = ''Journal'', p_description = truncated 150 line\<rparr>]
                       else fst st);
          problems2 = (if search API_WARNING_rx line \<noteq> None
                       then problems1 @
                            [\<lparr>p_timestamp = timestamp_label last_ts,
                              p_type = ''API Warning'', p_source = ''Revit API'',
                              p_description = truncated 150 line\<rparr>]
                       else problems1);
          problems3 = (if search PERFORMANCE_rx line \<noteq> None
                       then problems2 @
                            [\<lparr>p_timestamp = timestamp_label last_ts,
                              p_type = ''Performance'', p_source = ''Geometry'',
                              p_description = ''Possible performance issue: '' @ truncated 120 line\<rparr>]
                       else problems2)
      in (case search RESOURCE_SPIKE_rx line of
            Some m \<Rightarrow>
              (case int_of_digits (grp m 1) of
                 Inl e \<Rightarrow> Inl e
               | Inr ram_spike \<Rightarrow>
                   if int ram_spike > ram_spike_mb cfg
                   then Inr (problems3 @
                             [\<lparr>p_timestamp = timestamp_label last_ts,
                               p_type = ''Resource Spike'', p_source = ''Memory Usage'',
                               p_description =
                                 ''RAM spike of '' @ str_of_nat ram_spike @ '' MB detected''\<rparr>],
                            last_ts)
                   else Inr (problems3, last_ts))
          | None \<Rightarrow> Inr (problems3, last_ts)))"

fun problems_lines ::
  "finder \<Rightarrow> problem list \<times> string option \<Rightarrow> string list \<Rightarrow>
     py_error + problem list \<times> string option" where
  "problems_lines cfg st [] = Inr st"
| "problems_lines cfg st (line # rest) =
     (case problems_line cfg st line of
        Inl e \<Rightarrow> Inl e
      | Inr st' \<Rightarrow> problems_lines cfg st' rest)"

definition find_problems :: "finder \<Rightarrow> string \<Rightarrow> py_error + problem list" where
  "find_problems cfg file_content =
     (case problems_lines cfg ([], None) (splitlines file_content) of
        Inl e \<Rightarrow> Inl e
      | Inr st \<Rightarrow> Inr (fst st))"

section \<open>Example inputs and derived notions\<close>

text \<open>The category of the entry of a line, which does not depend on the state.\<close>

definition line_category :: "string \<Rightarrow> category" where
  "line_category raw =
     (let line0 = strip raw; line = annotate_gap line0
      in if is_model_line line \<and> search path_rx line \<noteq> None then Model
         else content_category (prefix_category line0) line0)"

definition example_reader :: "string list \<Rightarrow> reader" where
  "example_reader raws = (\<lambda>encoding. Inr raws)"

definition command_exception_line :: string where
  "command_exception_line =
     ''Jrn.Command '' @ [dq] @ ''X'' @ [dq] @ '','' @ [dq] @ ''Y'' @ [dq] @ '' exception occurred''"

definition command_exception_gap_line :: string where
  "command_exception_gap_line =
     ''Jrn.Command '' @ [dq] @ ''X'' @ [dq] @ '','' @ [dq] @ ''Y'' @ [dq] @ '' exception BIG_GAP''"

definition command_line :: string where
  "command_line = ''Jrn.Command '' @ [dq] @ ''X'' @ [dq] @ '' , '' @ [dq] @ ''Y'' @ [dq]"

definition forward_fill_lines :: "string list" where
  "forward_fill_lines =
     [apos # ''C 01-Jan-2024 10:00:00.000; x'',
      ''no-timestamp-here'',
      apos # ''C 01-Jan-2024 10:00:05.000; y'']"

definition failing_reader :: reader where
  "failing_reader = (\<lambda>encoding. Inl (UnicodeDecodeError ''invalid start byte''))"

definition text_cell :: "string \<Rightarrow> cell" where
  "text_cell s = \<lparr>get_text = s, stripped_strings = [s]\<rparr>"

definition gap_table :: "row list" where
  "gap_table =
     [[],
      [text_cell ''Wall join error'', text_cell ''Walls : id 123''],
      [text_cell ''a row of one cell''],
      [text_cell ''Room not enclosed'', text_cell ''Rooms : id 456'']]"

text \<open>The fields of a line in the sense of whitespace-delimited text: runs of whitespace
  separate the fields, at most \<open>n\<close> cuts are made and the rest is the last field.\<close>

fun ws_fields :: "nat \<Rightarrow> string \<Rightarrow> string list" where
  "ws_fields 0 s = (if dropWhile is_space s = [] then [] else [dropWhile is_space s])"
| "ws_fields (Suc n) s =
     (if dropWhile is_space s = [] then []
      else takeWhile (\<lambda>c. \<not> is_space c) (dropWhile is_space s) #
           ws_fields n (dropWhile (\<lambda>c. \<not> is_space c) (dropWhile is_space s)))"

text \<open>A text cut at its first two space characters.\<close>

definition cut_entry :: "string \<Rightarrow> worker_entry" where
  "cut_entry s =
     (let rest = tl (dropWhile (\<lambda>c. c \<noteq> CHR '' '') s)
      in \<lparr>w_timestamp = takeWhile (\<lambda>c. c \<noteq> CHR '' '') s,
          w_level = takeWhile (\<lambda>c. c \<noteq> CHR '' '') rest,
          w_message = tl (dropWhile (\<lambda>c. c \<noteq> CHR '' '') rest)\<rparr>)"

text \<open>The least number of characters a pattern item matches.\<close>

fun min_len :: "rx \<Rightarrow> nat" where
  "min_len (Lit l) = length l"
| "min_len (ILit l) = length l"
| "min_len (Rep p lo hi greedy) = lo"
| "min_len (Grp g) = sum_list (map min_len g)"
| "min_len (Alt as) = 0"

text \<open>The problems found in a list of lines, and for one line: the number of digits the
  resource spike pattern captures, the last timestamp after the line, and the problems
  the line adds when \<^verbatim>\<open>int\<close> does not raise.\<close>

definition problems_of_lines :: "finder \<Rightarrow> string list \<Rightarrow> py_error + problem list" where
  "problems_of_lines cfg lines =
     (case problems_lines cfg ([], None) lines of Inl e \<Rightarrow> Inl e | Inr st \<Rightarrow> Inr (fst st))"

definition spike_digits :: "string \<Rightarrow> nat" where
  "spike_digits line =
     (case search RESOURCE_SPIKE_rx line of Some m \<Rightarrow> length (grp m 1) | None \<Rightarrow> 0)"

definition line_anchor :: "string option \<Rightarrow> string \<Rightarrow> string option" where
  "line_anchor t line =
     (case match_at TIMESTAMP_rx line of Some m \<Rightarrow> Some (grp m 1) | None \<Rightarrow> t)"

definition spike_description :: "nat \<Rightarrow> string" where
  "spike_description n = ''RAM spike of '' @ str_of_nat n @ '' MB detected''"

definition line_problems :: "finder \<Rightarrow> string option \<Rightarrow> string \<Rightarrow> problem list" where
  "line_problems cfg t line =
     (if search ERROR_rx line \<noteq> None
      then [\<lparr>p_timestamp = timestamp_label (line_anchor t line), p_type = ''Error'',
             p_source = ''Journal'', p_description = truncated 150 line\<rparr>]
      else []) @
     (if search API_WARNING_rx line \<noteq> None
      then [\<lparr>p_timestamp = timestamp_label (line_anchor t line), p_type = ''API Warning'',
             p_source = ''Revit API'', p_description = truncated 150 line\<rparr>]
      else []) @
     (if search PERFORMANCE_rx line \<noteq> None
      then [\<lparr>p_timestamp = timestamp_label (line_anchor t line), p_type = ''Performance'',
             p_source = ''Geometry'',
             p_description = ''Possible performance issue: '' @ truncated 120 line\<rparr>]
      else []) @
     (case search RESOURCE_SPIKE_rx line of
        Some m \<Rightarrow>
          if ram_spike_mb cfg < int (digits_value (grp m 1))
          then [\<lparr>p_timestamp = timestamp_label (line_anchor t line), p_type = ''Resource Spike'',
                 p_source = ''Memory Usage'',
                 p_description = spike_description (digits_value (grp m 1))\<rparr>]
          else []
      | None \<Rightarrow> [])"

text \<open>The same over a list of lines, and the integers the resource spike pattern
  captures.\<close>

fun anchor_after :: "string option \<Rightarrow> string list \<Rightarrow> string option" where
  "anchor_after t [] = t"
| "anchor_after t (line # rest) = anchor_after (line_anchor t line) rest"

fun emitted :: "finder \<Rightarrow> string option \<Rightarrow> string list \<Rightarrow> problem list" where
  "emitted cfg t [] = []"
| "emitted cfg t (line # rest) = line_problems cfg t line @ emitted cfg (line_anchor t line) rest"

definition captured_spikes :: "string list \<Rightarrow> nat list" where
  "captured_spikes lines =
     concat (map (\<lambda>line. case search RESOURCE_SPIKE_rx line of
                            Some m \<Rightarrow> [digits_value (grp m 1)] | None \<Rightarrow> []) lines)"

text \<open>A line on which the resource spike pattern captures 4301 digits.\<close>

definition spike_overflow_line :: string where
  "spike_overflow_line = ''RAM: Used +'' @ replicate 4301 CHR ''9'' @ '' MB''"

definition anchor_error_line :: string where
  "anchor_error_line = apos # ''C 27-Sep-2025 13:08:35.485;  cannot open file''"

definition anchor_content :: string where
  "anchor_content = ''fail before'' @ [CHR 0x0A] @ anchor_error_line @ [CHR 0x0A] @ ''fail after''"






text \<open>Forward fill: every line gets its own timestamp token when it has one, else the most
  recently seen one (\<open>last_seen\<close>, empty before the first token).\<close>

fun forward_fill :: "string \<Rightarrow> string list \<Rightarrow> string list" where
  "forward_fill last_seen [] = []"
| "forward_fill last_seen (raw # raws) =
     (case search timestamp_rx (strip raw) of
        Some m \<Rightarrow> grp m 0 # forward_fill (grp m 0) raws
      | None \<Rightarrow> last_seen # forward_fill last_seen raws)"

section \<open>Properties of flat-mode parsing\<close>

lemma contains_iff: "contains sub s \<longleftrightarrow> (\<exists>p q. s = p @ sub @ q)"
proof (induction s)
  case Nil
  then show ?case by auto
next
  case (Cons c cs)
  show ?case
  proof
    assume "contains sub (c # cs)"
    then consider "prefix sub (c # cs)" | "contains sub cs" by auto
    then show "\<exists>p q. c # cs = p @ sub @ q"
    proof cases
      case 1
      then obtain q where "c # cs = sub @ q" by (auto simp: prefix_def)
      then have "c # cs = [] @ sub @ q" by simp
      then show ?thesis by blast
    next
      case 2
      then obtain p q where "cs = p @ sub @ q" using Cons.IH by blast
      then have "c # cs = (c # p) @ sub @ q" by simp
      then show ?thesis by blast
    qed
  next
    assume "\<exists>p q. c # cs = p @ sub @ q"
    then obtain p q where pq: "c # cs = p @ sub @ q" by blast
    show "contains sub (c # cs)"
    proof (cases p)
      case Nil
      then have "prefix sub (c # cs)" using pq by (simp add: prefix_def)
      then show ?thesis by simp
    next
      case (Cons a p')
      then have "cs = p' @ sub @ q" using pq by simp
      then have "contains sub cs" using Cons.IH by blast
      then show ?thesis by simp
    qed
  qed
qed

lemma contains_suffix_part: "contains (a @ b) s \<Longrightarrow> contains b s"
proof -
  assume "contains (a @ b) s"
  then obtain p q where "s = p @ (a @ b) @ q" using contains_iff by blast
  then have "s = (p @ a) @ b @ q" by simp
  then show ?thesis using contains_iff by blast
qed

lemma journal_line_parsed:
  "\<exists>e. parsed_data (journal_line unq st raw) = parsed_data st @ [e] \<and>
       e_category e = line_category raw \<and>
       (e_command e \<noteq> [] \<longrightarrow> e_category e = Command) \<and>
       (e_category e = Command \<longrightarrow> current_command (journal_line unq st raw) = [])"
  by (simp add: journal_line_def line_category_def new_model_info_def Let_def)

lemma journal_lines_categories:
  "map e_category (parsed_data (journal_lines unq st raws)) =
     map e_category (parsed_data st) @ map line_category raws"
proof (induction raws arbitrary: st)
  case Nil
  then show ?case by simp
next
  case (Cons raw raws)
  obtain e where "parsed_data (journal_line unq st raw) = parsed_data st @ [e]"
    and "e_category e = line_category raw"
    using journal_line_parsed by blast
  then show ?case using Cons.IH [of "journal_line unq st raw"] by simp
qed

lemma journal_lines_commands:
  "\<forall>e \<in> set (parsed_data st). e_command e \<noteq> [] \<longrightarrow> e_category e = Command \<Longrightarrow>
   \<forall>e \<in> set (parsed_data (journal_lines unq st raws)).
      e_command e \<noteq> [] \<longrightarrow> e_category e = Command"
proof (induction raws arbitrary: st)
  case Nil
  then show ?case by simp
next
  case (Cons raw raws)
  obtain e where "parsed_data (journal_line unq st raw) = parsed_data st @ [e]"
    and "e_command e \<noteq> [] \<longrightarrow> e_category e = Command"
    using journal_line_parsed by blast
  then have "\<forall>e \<in> set (parsed_data (journal_line unq st raw)).
      e_command e \<noteq> [] \<longrightarrow> e_category e = Command"
    using Cons.prems by auto
  then show ?case using Cons.IH [of "journal_line unq st raw"] by simp
qed

lemma parse_journal_first_encoding:
  "read ''utf-8'' = Inr raws \<Longrightarrow>
   parse_journal unq read = (None, parsed_data (journal_lines unq init_jstate raws))"
  by (simp add: parse_journal_def encodings_def)

lemma parse_journal_example_reader:
  "parse_journal unq (example_reader raws) =
     (None, parsed_data (journal_lines unq init_jstate raws))"
  by (simp add: parse_journal_first_encoding example_reader_def)

lemma parse_journal_category:
  assumes "read ''utf-8'' = Inr raws" and "i < length raws"
  shows "e_category (snd (parse_journal unq read) ! i) = line_category (raws ! i)"
proof -
  let ?out = "parsed_data (journal_lines unq init_jstate raws)"
  have m: "map e_category ?out = map line_category raws"
    using journal_lines_categories [of unq init_jstate raws] by (simp add: init_jstate_def)
  then have "length ?out = length raws"
    using length_map by metis
  then have "e_category (?out ! i) = map e_category ?out ! i"
    using assms(2) by simp
  also have "\<dots> = line_category (raws ! i)"
    using m assms(2) by simp
  finally show ?thesis
    using assms(1) by (simp add: parse_journal_first_encoding)
qed

lemma journal_line_timestamp:
  "map e_timestamp (parsed_data (journal_line unq st raw)) =
     map e_timestamp (parsed_data st) @
     [case search timestamp_rx (strip raw) of Some m \<Rightarrow> grp m 0 | None \<Rightarrow> last_timestamp st] \<and>
   last_timestamp (journal_line unq st raw) =
     (case search timestamp_rx (strip raw) of Some m \<Rightarrow> grp m 0 | None \<Rightarrow> last_timestamp st)"
  by (simp add: journal_line_def Let_def)

lemma journal_lines_timestamps:
  "map e_timestamp (parsed_data (journal_lines unq st raws)) =
     map e_timestamp (parsed_data st) @ forward_fill (last_timestamp st) raws"
proof (induction raws arbitrary: st)
  case Nil
  then show ?case by simp
next
  case (Cons raw raws)
  show ?case
  proof (cases "search timestamp_rx (strip raw)")
    case None
    then show ?thesis
      using Cons.IH [of "journal_line unq st raw"] journal_line_timestamp [of unq st raw]
      by simp
  next
    case (Some m)
    then show ?thesis
      using Cons.IH [of "journal_line unq st raw"] journal_line_timestamp [of unq st raw]
      by simp
  qed
qed

text \<open>
  C5. Forward fill of the timestamp in flat mode: the entry of a line with a timestamp
  token carries that token, and the entry of a line without one inherits the most recently
  seen timestamp (the empty text before the first token). On the three lines
  \<^verbatim>\<open>'C 01-Jan-2024 10:00:00.000; x\<close>, \<^verbatim>\<open>no-timestamp-here\<close> and
  \<^verbatim>\<open>'C 01-Jan-2024 10:00:05.000; y\<close> the timestamps are \<^verbatim>\<open>01-Jan-2024 10:00:00.000\<close>,
  the same again, and \<^verbatim>\<open>01-Jan-2024 10:00:05.000\<close>.
\<close>

theorem flat_timestamp_forward_fill:
  assumes "read ''utf-8'' = Inr raws"
  shows "map e_timestamp (snd (parse_journal unq read)) = forward_fill [] raws"
  using assms journal_lines_timestamps [of unq init_jstate raws]
  by (simp add: parse_journal_first_encoding init_jstate_def)

theorem flat_timestamp_forward_fill_witness:
  "map e_timestamp (snd (parse_journal id (example_reader forward_fill_lines))) =
     [''01-Jan-2024 10:00:00.000'', ''01-Jan-2024 10:00:00.000'', ''01-Jan-2024 10:00:05.000'']"
proof -
  have h: "example_reader forward_fill_lines ''utf-8'' = Inr forward_fill_lines"
    by (simp add: example_reader_def)
  have "forward_fill [] forward_fill_lines =
     [''01-Jan-2024 10:00:00.000'', ''01-Jan-2024 10:00:00.000'', ''01-Jan-2024 10:00:05.000'']"
    by code_simp
  then show ?thesis
    using flat_timestamp_forward_fill
      [where read = "example_reader forward_fill_lines" and raws = forward_fill_lines
         and unq = id, OF h]
    by simp
qed

text \<open>
  C2, as stated, fails: a line that starts with \<^verbatim>\<open>Jrn.Command\<close> and contains
  \<^verbatim>\<open>exception\<close> is not classified \<open>Error\<close> when it also contains \<^verbatim>\<open>BIG_GAP\<close>, the first
  of the content rules.
\<close>

theorem command_exception_gap_not_error:
  "startswith (strip command_exception_gap_line) ''Jrn.Command'' \<and>
   contains ''exception'' (lower (strip command_exception_gap_line)) \<and>
   map e_category (snd (parse_journal id (example_reader [command_exception_gap_line]))) = [BIG_GAP]"
  unfolding parse_journal_example_reader by code_simp

text \<open>
  C2, amended. In flat mode the content rules win over the prefix rules: a line that
  starts with \<^verbatim>\<open>Jrn.Command\<close> and contains one of the error substrings
  (\<^verbatim>\<open>Unrecoverable error\<close>, \<^verbatim>\<open>exception\<close> in any case, \<^verbatim>\<open>API_ERROR\<close>, \<^verbatim>\<open>Error posted\<close>)
  never gives an entry of category \<open>Command\<close>, and its category is \<open>Error\<close> unless the
  line contains \<^verbatim>\<open>BIG_GAP\<close> or is a \<^verbatim>\<open>ModelPath Created\<close> line whose path is extracted.
  The line \<^verbatim>\<open>Jrn.Command "X","Y" exception occurred\<close> is classified \<open>Error\<close>.
\<close>

theorem command_line_with_error_is_error:
  assumes "read ''utf-8'' = Inr raws" and "i < length raws"
    and "line = strip (raws ! i)"
    and "startswith line ''Jrn.Command''"
    and "contains ''Unrecoverable error'' line \<or> contains ''exception'' (lower line) \<or>
         contains ''API_ERROR'' line \<or> contains ''Error posted'' line"
  shows "e_category (snd (parse_journal unq read) ! i) \<noteq> Command \<and>
         (\<not> contains ''BIG_GAP'' line \<and>
          \<not> (is_model_line line \<and> search path_rx line \<noteq> None) \<longrightarrow>
          e_category (snd (parse_journal unq read) ! i) = Error)"
proof -
  have cat: "e_category (snd (parse_journal unq read) ! i) = line_category (raws ! i)"
    using parse_journal_category [of read raws i unq] assms(1,2) by simp
  have content: "content_category c line = BIG_GAP \<or> content_category c line = Error" for c
    using assms(5) by (auto simp: content_category_def)
  have "line_category (raws ! i) = Model \<or>
        line_category (raws ! i) = content_category (prefix_category line) line"
    using assms(3) by (simp add: line_category_def Let_def)
  then have never: "line_category (raws ! i) \<noteq> Command"
    using content [of "prefix_category line"] by auto
  have error: "line_category (raws ! i) = Error"
    if gap: "\<not> contains ''BIG_GAP'' line"
      and model: "\<not> (is_model_line line \<and> search path_rx line \<noteq> None)"
  proof -
    have no_gap: "\<not> contains ''!!!BIG_GAP'' line"
      using gap contains_suffix_part [of "''!!!''" "''BIG_GAP''" line] by auto
    then have "annotate_gap line = line"
      using gap by (simp add: annotate_gap_def)
    then have "line_category (raws ! i) = content_category (prefix_category line) line"
      using assms(3) model by (auto simp: line_category_def Let_def)
    also have "\<dots> = Error"
      using assms(5) gap no_gap by (auto simp: content_category_def)
    finally show ?thesis .
  qed
  show ?thesis
    using cat never error by simp
qed

theorem command_line_with_error_is_error_witness:
  "e_category (snd (parse_journal id (example_reader [command_exception_line])) ! 0) = Error"
proof -
  let ?line = "strip command_exception_line"
  have h1: "example_reader [command_exception_line] ''utf-8'' = Inr [command_exception_line]"
    by (simp add: example_reader_def)
  have h2: "0 < length [command_exception_line]" by simp
  have h3: "?line = strip ([command_exception_line] ! 0)" by simp
  have h4: "startswith ?line ''Jrn.Command''" by code_simp
  have h5: "contains ''Unrecoverable error'' ?line \<or> contains ''exception'' (lower ?line) \<or>
         contains ''API_ERROR'' ?line \<or> contains ''Error posted'' ?line" by code_simp
  have h6: "\<not> contains ''BIG_GAP'' ?line" by code_simp
  have h7: "\<not> (is_model_line ?line \<and> search path_rx ?line \<noteq> None)" by code_simp
  show ?thesis
    using command_line_with_error_is_error
      [where read = "example_reader [command_exception_line]" and raws = "[command_exception_line]"
         and i = 0 and line = ?line and unq = id, OF h1 h2 h3 h4 h5]
      h6 h7
    by blast
qed

text \<open>
  C9. In flat mode the \<^verbatim>\<open>command\<close> field of an entry is non-empty only when the category of
  the entry is \<open>Command\<close>, and the pending command label is empty right after a line whose
  entry is of category \<open>Command\<close>.
\<close>

theorem command_only_on_command_entries:
  "(\<forall>e \<in> set (snd (parse_journal unq read)). e_command e \<noteq> [] \<longrightarrow> e_category e = Command) \<and>
   (\<forall>st raw. e_category (last (parsed_data (journal_line unq st raw))) = Command \<longrightarrow>
      current_command (journal_line unq st raw) = [])"
proof
  have run: "\<forall>e \<in> set (parsed_data (journal_lines unq init_jstate raws)).
      e_command e \<noteq> [] \<longrightarrow> e_category e = Command" for raws
    using journal_lines_commands [of init_jstate unq raws] by (simp add: init_jstate_def)
  have fail: "snd (journal_failure x) = []" for x
    by (simp add: journal_failure_def split: option.splits)
  have loop: "\<forall>e \<in> set (snd (parse_journal_loop unq read encs last)).
      e_command e \<noteq> [] \<longrightarrow> e_category e = Command" for encs last
  proof (induction encs arbitrary: last)
    case Nil
    then show ?case by (simp add: fail)
  next
    case (Cons enc encs)
    show ?case
    proof (cases "read enc")
      case (Inl x)
      then show ?thesis using Cons.IH by (cases x) (simp_all add: fail)
    next
      case (Inr raws)
      then show ?thesis using run [of raws] by simp
    qed
  qed
  show "\<forall>e \<in> set (snd (parse_journal unq read)). e_command e \<noteq> [] \<longrightarrow> e_category e = Command"
    using loop by (simp add: parse_journal_def)
next
  show "\<forall>st raw. e_category (last (parsed_data (journal_line unq st raw))) = Command \<longrightarrow>
      current_command (journal_line unq st raw) = []"
  proof (intro allI impI)
    fix st raw
    assume c: "e_category (last (parsed_data (journal_line unq st raw))) = Command"
    obtain e where "parsed_data (journal_line unq st raw) = parsed_data st @ [e]"
      and "e_category e = Command \<longrightarrow> current_command (journal_line unq st raw) = []"
      using journal_line_parsed by blast
    then show "current_command (journal_line unq st raw) = []" using c by simp
  qed
qed

theorem command_only_on_command_entries_witness:
  "e_command (hd (snd (parse_journal id (example_reader [command_line])))) = ''X: Y'' \<and>
   e_category (hd (snd (parse_journal id (example_reader [command_line])))) = Command \<and>
   current_command (journal_line id init_jstate command_line) = []"
proof -
  let ?out = "snd (parse_journal id (example_reader [command_line]))"
  have out: "?out = parsed_data (journal_line id init_jstate command_line)"
    by (simp add: parse_journal_example_reader)
  obtain e where e: "parsed_data (journal_line id init_jstate command_line) =
      parsed_data init_jstate @ [e]"
    using journal_line_parsed by blast
  then have single: "?out = [e]"
    using out by (simp add: init_jstate_def)
  have cmd: "e_command (hd ?out) = ''X: Y''"
    unfolding parse_journal_example_reader by code_simp
  have "hd ?out \<in> set ?out" and "e_command (hd ?out) \<noteq> []"
    using single cmd by auto
  then have cat: "e_category (hd ?out) = Command"
    using command_only_on_command_entries [of id "example_reader [command_line]"] by blast
  have "last (parsed_data (journal_line id init_jstate command_line)) = hd ?out"
    using single out by simp
  then have "current_command (journal_line id init_jstate command_line) = []"
    using cat command_only_on_command_entries [of id "example_reader [command_line]"] by metis
  then show ?thesis using cmd cat by blast
qed

section \<open>Failure under every encoding\<close>

lemma parse_models_loop_fails:
  assumes "\<forall>enc \<in> set encs. \<exists>e. read enc = Inl e" and "encs \<noteq> [] \<or> exc \<noteq> None"
  shows "\<exists>e. parse_models_loop unq read encs exc = Inl (RuntimeError ''Failed to parse journal file'' e)"
  using assms
proof (induction encs arbitrary: exc)
  case Nil
  then show ?case by auto
next
  case (Cons enc encs)
  then obtain e where e: "read enc = Inl e" by auto
  have "\<exists>e'. parse_models_loop unq read encs (Some e) =
      Inl (RuntimeError ''Failed to parse journal file'' e')"
    using Cons.IH [of "Some e"] Cons.prems(1) by simp
  then show ?case using e by simp
qed

lemma journal_failure_empty: "snd (journal_failure x) = [] \<and> fst (journal_failure x) \<noteq> None"
  by (simp add: journal_failure_def split: option.splits)

lemma parse_journal_loop_fails:
  assumes "\<forall>enc \<in> set encs. \<exists>e. read enc = Inl e"
  shows "snd (parse_journal_loop unq read encs exc) = [] \<and>
         fst (parse_journal_loop unq read encs exc) \<noteq> None"
  using assms
proof (induction encs arbitrary: exc)
  case Nil
  then show ?case by (simp add: journal_failure_empty)
next
  case (Cons enc encs)
  then obtain e where e: "read enc = Inl e" by auto
  show ?case
  proof (cases e)
    case (UnicodeDecodeError msg)
    then show ?thesis using e Cons.IH [of "Some (UnicodeDecodeError msg)"] Cons.prems by simp
  next
    case (OtherException msg)
    then show ?thesis using e by (simp add: journal_failure_empty)
  qed
qed

text \<open>
  C1. When reading the file fails under every candidate encoding,
  \<^verbatim>\<open>parse_journal_with_models\<close> raises \<^verbatim>\<open>RuntimeError\<close>, while \<^verbatim>\<open>parse_journal\<close> on the
  same file reports the error and returns the empty list.
\<close>

theorem total_failure_raises_or_returns_empty:
  assumes "\<forall>enc \<in> set encodings. \<exists>e. read enc = Inl e"
  shows "(\<exists>e. parse_journal_with_models unq read =
            Inl (RuntimeError ''Failed to parse journal file'' e)) \<and>
         snd (parse_journal unq read) = [] \<and> fst (parse_journal unq read) \<noteq> None"
proof -
  have "encodings \<noteq> []" by (simp add: encodings_def)
  then have "\<exists>e. parse_models_loop unq read encodings None =
      Inl (RuntimeError ''Failed to parse journal file'' e)"
    using parse_models_loop_fails [of encodings read None unq] assms by blast
  then show ?thesis
    using parse_journal_loop_fails [of encodings read unq None] assms
    by (simp add: parse_journal_with_models_def parse_journal_def)
qed

theorem total_failure_raises_or_returns_empty_witness:
  "parse_journal_with_models id failing_reader =
     Inl (RuntimeError ''Failed to parse journal file'' (UnicodeDecodeError ''invalid start byte'')) \<and>
   snd (parse_journal id failing_reader) = []"
proof -
  have h: "\<forall>enc \<in> set encodings. \<exists>e. failing_reader enc = Inl e"
    by (simp add: failing_reader_def)
  have "parse_journal_with_models id failing_reader =
     Inl (RuntimeError ''Failed to parse journal file'' (UnicodeDecodeError ''invalid start byte''))"
    by (simp add: parse_journal_with_models_def encodings_def failing_reader_def)
  then show ?thesis
    using total_failure_raises_or_returns_empty [OF h, of id] by blast
qed

section \<open>Timestamps of the mode with models\<close>

lemma models_line_lines:
  "categorized_lines (models_line unq st raw) =
     categorized_lines st @
     [\<lparr>l_timestamp = map_option (\<lambda>m. grp m 0) (search timestamp_rx (strip raw)),
       l_category = content_category_models (prefix_category (strip raw)) (strip raw),
       l_content = strip raw,
       l_model = current_model (models_line unq st raw)\<rparr>]"
  by (simp add: models_line_def Let_def)

lemma models_lines_timestamps:
  "map l_timestamp (categorized_lines (models_lines unq st raws)) =
     map l_timestamp (categorized_lines st) @
     map (\<lambda>raw. map_option (\<lambda>m. grp m 0) (search timestamp_rx (strip raw))) raws"
proof (induction raws arbitrary: st)
  case Nil
  then show ?case by simp
next
  case (Cons raw raws)
  show ?case
    using Cons.IH [of "models_line unq st raw"] by (simp add: models_line_lines)
qed

lemma parse_models_first_encoding:
  "read ''utf-8'' = Inr raws \<Longrightarrow>
   parse_journal_with_models unq read = Inr (Some (journal_document unq raws))"
  by (simp add: parse_journal_with_models_def encodings_def)

text \<open>
  What the code does in the mode with models: the timestamp of an entry is the timestamp
  token of its own line when the line contains one, and null otherwise.
\<close>

lemma models_timestamp_of_own_line:
  assumes "read ''utf-8'' = Inr raws"
  shows "parse_journal_with_models unq read = Inr (Some (journal_document unq raws)) \<and>
         map l_timestamp (doc_lines (journal_document unq raws)) =
           map (\<lambda>raw. map_option (\<lambda>m. grp m 0) (search timestamp_rx (strip raw))) raws"
proof
  show "parse_journal_with_models unq read = Inr (Some (journal_document unq raws))"
    using assms by (rule parse_models_first_encoding)
  show "map l_timestamp (doc_lines (journal_document unq raws)) =
           map (\<lambda>raw. map_option (\<lambda>m. grp m 0) (search timestamp_rx (strip raw))) raws"
    using models_lines_timestamps [of unq init_mstate raws]
    by (simp add: journal_document_def Let_def init_mstate_def)
qed

text \<open>
  C3. The claim asks for the forward fill that flat mode does, and the block of
  \<^verbatim>\<open>parse_journal_with_models\<close> that builds the entries is commented as the same logic as
  \<^verbatim>\<open>parse_journal\<close>. The code does not carry the timestamp forward: on the three lines
  \<^verbatim>\<open>'C 01-Jan-2024 10:00:00.000; x\<close>, \<^verbatim>\<open>no-timestamp-here\<close> and
  \<^verbatim>\<open>'C 01-Jan-2024 10:00:05.000; y\<close> the second entry has no timestamp, where the claim
  gives it \<^verbatim>\<open>01-Jan-2024 10:00:00.000\<close>, as flat mode does.
\<close>

theorem models_timestamp_not_carried:
  "parse_journal_with_models id (example_reader forward_fill_lines) =
     Inr (Some (journal_document id forward_fill_lines)) \<and>
   map l_timestamp (doc_lines (journal_document id forward_fill_lines)) =
     [Some ''01-Jan-2024 10:00:00.000'', None, Some ''01-Jan-2024 10:00:05.000''] \<and>
   map e_timestamp (snd (parse_journal id (example_reader forward_fill_lines))) =
     [''01-Jan-2024 10:00:00.000'', ''01-Jan-2024 10:00:00.000'', ''01-Jan-2024 10:00:05.000'']"
proof (intro conjI)
  show "parse_journal_with_models id (example_reader forward_fill_lines) =
     Inr (Some (journal_document id forward_fill_lines))"
    by (simp add: parse_models_first_encoding example_reader_def)
  have "map l_timestamp (categorized_lines (models_lines id init_mstate forward_fill_lines)) =
     map (\<lambda>raw. map_option (\<lambda>m. grp m 0) (search timestamp_rx (strip raw))) forward_fill_lines"
    using models_lines_timestamps [of id init_mstate forward_fill_lines]
    by (simp add: init_mstate_def)
  also have "\<dots> = [Some ''01-Jan-2024 10:00:00.000'', None, Some ''01-Jan-2024 10:00:05.000'']"
    by code_simp
  finally show "map l_timestamp (doc_lines (journal_document id forward_fill_lines)) =
     [Some ''01-Jan-2024 10:00:00.000'', None, Some ''01-Jan-2024 10:00:05.000'']"
    by (simp add: journal_document_def Let_def)
  have "map e_timestamp (parsed_data (journal_lines id init_jstate forward_fill_lines)) =
     forward_fill [] forward_fill_lines"
    using journal_lines_timestamps [of id init_jstate forward_fill_lines]
    by (simp add: init_jstate_def)
  also have "\<dots> =
     [''01-Jan-2024 10:00:00.000'', ''01-Jan-2024 10:00:00.000'', ''01-Jan-2024 10:00:05.000'']"
    by code_simp
  finally show "map e_timestamp (snd (parse_journal id (example_reader forward_fill_lines))) =
     [''01-Jan-2024 10:00:00.000'', ''01-Jan-2024 10:00:00.000'', ''01-Jan-2024 10:00:05.000'']"
    by (simp add: parse_journal_example_reader)
qed

section \<open>Indices of the HTML warnings\<close>

lemma html_rows_index:
  "map index (html_rows clock k i warnings rows) =
     map index warnings @
     map fst (filter (\<lambda>(j, cells). length cells = 2) (enumerate i rows))"
proof (induction rows arbitrary: k i warnings)
  case Nil
  then show ?case by simp
next
  case (Cons cells rows)
  show ?case
  proof (cases "length cells = 2")
    case True
    then show ?thesis
      using Cons.IH by simp
  next
    case False
    then show ?thesis
      using Cons.IH by simp
  qed
qed

text \<open>
  C4, as stated, fails: a row without exactly two cells between two accepted rows leaves a
  gap in the indices, here 1 and 3.
\<close>

theorem html_index_gap:
  "map index (snd (html_parse True (\<lambda>k. []) (Some gap_table))) = [1, 3] \<and>
   map index (snd (html_parse True (\<lambda>k. []) (Some gap_table))) \<noteq>
     [1..<Suc (length (snd (html_parse True (\<lambda>k. []) (Some gap_table))))]"
proof -
  have "map index (snd (html_parse True (\<lambda>k. []) (Some gap_table))) = [1, 3]"
    by (simp add: html_parse_def gap_table_def)
  moreover have "length (snd (html_parse True (\<lambda>k. []) (Some gap_table))) = 2"
    by (simp add: html_parse_def gap_table_def)
  moreover have "[1..<Suc 2] = [1, 2::nat]"
    by (simp add: upt_rec)
  ultimately show ?thesis by simp
qed

text \<open>
  C4, amended. The index of a warning is the position of its row among the rows after the
  header row, counted from 1 over all of them, accepted or not: the indices follow the
  document order and a skipped row leaves a gap.
\<close>

theorem html_index_is_row_position:
  "map index (snd (html_parse True clock (Some rows))) =
     map fst (filter (\<lambda>(j, cells). length cells = 2) (enumerate 1 (drop 1 rows)))"
  using html_rows_index [of clock 0 1 "[]" "drop 1 rows"] by (simp add: html_parse_def)

section \<open>Worker log lines\<close>

lemma count_dropWhile: "count_list (dropWhile (\<lambda>c. c \<noteq> x) s) x = count_list s x"
  by (induction s) auto

lemma count_pos_iff: "x \<in> set s \<longleftrightarrow> 0 < count_list s x"
  by (induction s) auto

lemma dropWhile_hd:
  "x \<in> set s \<Longrightarrow> dropWhile (\<lambda>c. c \<noteq> x) s = x # tl (dropWhile (\<lambda>c. c \<noteq> x) s)"
  by (induction s) auto

lemma count_tl:
  assumes "x \<in> set s"
  shows "count_list s x = Suc (count_list (tl (dropWhile (\<lambda>c. c \<noteq> x) s)) x)"
proof -
  have "count_list s x = count_list (dropWhile (\<lambda>c. c \<noteq> x) s) x"
    by (simp add: count_dropWhile)
  also have "\<dots> = count_list (x # tl (dropWhile (\<lambda>c. c \<noteq> x) s)) x"
    using dropWhile_hd [OF assms] by simp
  finally show ?thesis by simp
qed

lemma split_max_two:
  "split_max x 2 s =
     (if 2 \<le> count_list s x
      then [takeWhile (\<lambda>c. c \<noteq> x) s,
            takeWhile (\<lambda>c. c \<noteq> x) (tl (dropWhile (\<lambda>c. c \<noteq> x) s)),
            tl (dropWhile (\<lambda>c. c \<noteq> x) (tl (dropWhile (\<lambda>c. c \<noteq> x) s)))]
      else if x \<in> set s then [takeWhile (\<lambda>c. c \<noteq> x) s, tl (dropWhile (\<lambda>c. c \<noteq> x) s)]
      else [s])"
proof (cases "x \<in> set s")
  case False
  then have "count_list s x = 0" by (simp add: count_pos_iff)
  then show ?thesis using False by (simp add: numeral_2_eq_2)
next
  case True
  let ?r = "tl (dropWhile (\<lambda>c. c \<noteq> x) s)"
  have c: "count_list s x = Suc (count_list ?r x)" using count_tl [OF True] .
  show ?thesis
  proof (cases "x \<in> set ?r")
    case False
    then have "count_list ?r x = 0" by (simp add: count_pos_iff)
    then show ?thesis using True False c by (simp add: numeral_2_eq_2)
  next
    case r: True
    then have "0 < count_list ?r x" by (simp add: count_pos_iff)
    then show ?thesis using True r c by (simp add: numeral_2_eq_2)
  qed
qed

lemma worker_lines_eq:
  "worker_lines entries raws =
     entries @ map (\<lambda>raw. cut_entry (strip raw))
                 (filter (\<lambda>raw. 2 \<le> count_list (strip raw) CHR '' '') raws)"
proof (induction raws arbitrary: entries)
  case Nil
  then show ?case by simp
next
  case (Cons raw raws)
  show ?case
    by (simp add: Cons.IH split_max_two cut_entry_def Let_def)
qed

text \<open>
  C7, as stated, fails: the line \<^verbatim>\<open>a  b\<close> (two spaces) has two whitespace-delimited
  fields only, and still gives an entry, with an empty level.
\<close>

theorem worker_two_fields_entry:
  "ws_fields 2 (strip ''a  b'') = [''a'', ''b''] \<and>
   parse_worker_log True (Inr [''a  b'']) =
     Some [\<lparr>w_timestamp = ''a'', w_level = [], w_message = ''b''\<rparr>]"
  by code_simp

text \<open>
  C7, amended. The entries of a worker log are, in line order, one entry for each line
  whose stripped text contains at least two space characters: the text is cut at its first
  two space characters (so the third part may contain spaces, and a part is empty where the
  space characters are adjacent), the parts being timestamp, level and message. The lines
  with fewer than two space characters are dropped. The lines
  \<^verbatim>\<open>2024-01-01 INFO hello world\<close> and \<^verbatim>\<open>malformed line\<close> give one entry.
\<close>

theorem worker_entries_cut_at_spaces:
  "parse_worker_log True (Inr raws) =
     Some (map (\<lambda>raw. cut_entry (strip raw))
             (filter (\<lambda>raw. 2 \<le> count_list (strip raw) CHR '' '') raws)) \<and>
   parse_worker_log True (Inr [''2024-01-01 INFO hello world'', ''malformed line'']) =
     Some [\<lparr>w_timestamp = ''2024-01-01'', w_level = ''INFO'', w_message = ''hello world''\<rparr>]"
proof
  show "parse_worker_log True (Inr raws) =
     Some (map (\<lambda>raw. cut_entry (strip raw))
             (filter (\<lambda>raw. 2 \<le> count_list (strip raw) CHR '' '') raws))"
    using worker_lines_eq [of "[]" raws] by (simp add: parse_worker_log_def)
  show "parse_worker_log True (Inr [''2024-01-01 INFO hello world'', ''malformed line'']) =
     Some [\<lparr>w_timestamp = ''2024-01-01'', w_level = ''INFO'', w_message = ''hello world''\<rparr>]"
    by code_simp
qed

section \<open>What a match consumes\<close>

lemma iprefix_length: "iprefix l s \<Longrightarrow> length l \<le> length s"
  by (induction l s rule: iprefix.induct) (auto split: if_splits)

lemma counts_bounds: "k \<in> set (counts p lo hi greedy s) \<Longrightarrow> lo \<le> k \<and> k \<le> length s"
proof -
  assume a: "k \<in> set (counts p lo hi greedy s)"
  have n: "length (takeWhile p s) \<le> length s" by (rule length_takeWhile_le)
  show ?thesis
  proof (cases hi)
    case None
    then show ?thesis using a n by (auto simp: counts_def Let_def split: if_splits)
  next
    case (Some h)
    then show ?thesis using a n by (auto simp: counts_def Let_def split: if_splits)
  qed
qed

lemma ms_consumes:
  "(cs, s') \<in> set (ms rs s) \<Longrightarrow> length s' + sum_list (map min_len rs) \<le> length s"
proof (induction rs s arbitrary: cs s' rule: ms.induct)
  case (1 s)
  then show ?case by simp
next
  case (2 l rs s)
  then have p: "prefix l s" and m: "(cs, s') \<in> set (ms rs (drop (length l) s))"
    by (auto split: if_splits)
  have "length l \<le> length s" using p by (rule prefix_length_le)
  then show ?case using 2(1) [OF p m] by simp
next
  case (3 l rs s)
  then have p: "iprefix l s" and m: "(cs, s') \<in> set (ms rs (drop (length l) s))"
    by (auto split: if_splits)
  have "length l \<le> length s" using p by (rule iprefix_length)
  then show ?case using 3(1) [OF p m] by simp
next
  case (4 p lo hi greedy rs s)
  then obtain k where k: "k \<in> set (counts p lo hi greedy s)"
    and m: "(cs, s') \<in> set (ms rs (drop k s))" by auto
  have b: "lo \<le> k \<and> k \<le> length s" using k by (rule counts_bounds)
  have "length s' + sum_list (map min_len rs) \<le> length s - k" using 4(1) [OF k m] by simp
  then have "length s' + (lo + sum_list (map min_len rs)) \<le> length s" using b by linarith
  then show ?case by simp
next
  case (5 g rs s)
  then obtain c1 s1 c2 where a: "(c1, s1) \<in> set (ms g s)"
    and b: "(c2, s') \<in> set (ms rs s1)" by auto
  have "length s1 + sum_list (map min_len g) \<le> length s" using 5(1) [OF a] .
  moreover have "length s' + sum_list (map min_len rs) \<le> length s1"
    using 5(2) [OF a _ b] by simp
  ultimately show ?case by simp
next
  case (6 as rs s)
  then obtain a c1 s1 c2 where a: "a \<in> set as" and b: "(c1, s1) \<in> set (ms a s)"
    and c: "(c2, s') \<in> set (ms rs s1)" by auto
  have "length s1 + sum_list (map min_len a) \<le> length s" using 6(1) [OF a b] .
  moreover have "length s' + sum_list (map min_len rs) \<le> length s1"
    using 6(2) [OF a b _ c] by simp
  ultimately show ?case by simp
qed

lemma ms_group_first:
  assumes "(cs, s') \<in> set (ms (Grp g # rs) s)"
  shows "cs \<noteq> [] \<and> sum_list (map min_len g) \<le> length (hd cs)"
proof -
  obtain c1 s1 c2 where a: "(c1, s1) \<in> set (ms g s)"
    and cs: "cs = take (length s - length s1) s # c1 @ c2"
    using assms by auto
  have "length s1 + sum_list (map min_len g) \<le> length s" using ms_consumes [OF a] .
  then show ?thesis using cs by simp
qed

lemma match_at_ms:
  "match_at rs s = Some m \<Longrightarrow> \<exists>cs s'. (cs, s') \<in> set (ms rs s) \<and> tl m = cs \<and> m \<noteq> []"
  by (auto simp: match_at_def split: list.splits)

lemma TIMESTAMP_group:
  assumes "match_at TIMESTAMP_rx line = Some m"
  shows "24 \<le> length (grp m 1)"
proof -
  obtain cs s' where a: "(cs, s') \<in> set (ms TIMESTAMP_rx line)" and t: "tl m = cs" and "m \<noteq> []"
    using match_at_ms [OF assms] by blast
  then obtain g0 where m: "m = g0 # cs" by (cases m) auto
  let ?g = "[Rep digit 2 (Some 2) True, Lit ''-'', Rep word_chr 3 (Some 3) True, Lit ''-'',
           Rep digit 4 (Some 4) True, Lit '' '', Rep digit 2 (Some 2) True, Lit '':'',
           Rep digit 2 (Some 2) True, Lit '':'', Rep digit 2 (Some 2) True, Lit ''.'',
           Rep digit 3 (Some 3) True]"
  let ?rest = "[Lit '';'', Rep is_space 0 None True, Grp [Rep any_chr 0 None True]]"
  have unfold: "ms TIMESTAMP_rx line =
      (if prefix (apos # ''C '') line
       then ms (Grp ?g # ?rest) (drop (length (apos # ''C '')) line) else [])"
    unfolding TIMESTAMP_rx_def by (rule ms.simps(2))
  have "(cs, s') \<in> set (ms (Grp ?g # ?rest) (drop (length (apos # ''C '')) line))"
  proof (cases "prefix (apos # ''C '') line")
    case True
    then have "ms TIMESTAMP_rx line = ms (Grp ?g # ?rest) (drop (length (apos # ''C '')) line)"
      by (simp only: unfold if_True)
    then show ?thesis using a by (simp only:)
  next
    case False
    then have "ms TIMESTAMP_rx line = []" by (simp only: unfold if_False)
    then show ?thesis using a by simp
  qed
  then have "cs \<noteq> [] \<and> sum_list (map min_len ?g) \<le> length (hd cs)"
    by (rule ms_group_first)
  then show ?thesis using m by (cases cs) (simp_all add: grp_def)
qed

section \<open>Problems of a journal\<close>

lemma problems_line_eq:
  "problems_line cfg (ps, t) line =
     (if max_str_digits < spike_digits line then Inl ValueError
      else Inr (ps @ line_problems cfg t line, line_anchor t line))"
proof (cases "search RESOURCE_SPIKE_rx line")
  case None
  then show ?thesis
    by (simp add: problems_line_def line_problems_def line_anchor_def spike_digits_def Let_def
        cong: option.case_cong)
next
  case (Some m)
  then show ?thesis
    by (simp add: problems_line_def line_problems_def line_anchor_def spike_digits_def
        int_of_digits_def spike_description_def Let_def cong: option.case_cong)
qed

lemma problems_lines_eq:
  "problems_lines cfg (ps, t) lines =
     (if \<exists>l \<in> set lines. max_str_digits < spike_digits l then Inl ValueError
      else Inr (ps @ emitted cfg t lines, anchor_after t lines))"
proof (induction lines arbitrary: ps t)
  case Nil
  then show ?case by simp
next
  case (Cons line lines)
  show ?case
  proof (cases "max_str_digits < spike_digits line")
    case True
    then show ?thesis by (simp add: problems_line_eq)
  next
    case False
    then show ?thesis
      using Cons.IH [of "ps @ line_problems cfg t line" "line_anchor t line"]
      by (simp add: problems_line_eq)
  qed
qed

lemma anchor_after_append: "anchor_after t (xs @ ys) = anchor_after (anchor_after t xs) ys"
  by (induction xs arbitrary: t) simp_all

lemma emitted_append:
  "emitted cfg t (xs @ ys) = emitted cfg t xs @ emitted cfg (anchor_after t xs) ys"
  by (induction xs arbitrary: t) simp_all

lemma find_problems_eq:
  "find_problems cfg content =
     (if \<exists>l \<in> set (splitlines content). max_str_digits < spike_digits l then Inl ValueError
      else Inr (emitted cfg None (splitlines content)))"
  by (simp add: find_problems_def problems_lines_eq)

lemma find_problems_returns_iff:
  "(\<exists>problems. find_problems cfg content = Inr problems) \<longleftrightarrow>
   (\<forall>l \<in> set (splitlines content). spike_digits l \<le> max_str_digits)"
proof -
  have "(\<exists>l \<in> set (splitlines content). max_str_digits < spike_digits l) \<longleftrightarrow>
        \<not> (\<forall>l \<in> set (splitlines content). spike_digits l \<le> max_str_digits)"
    by (auto simp: not_le)
  then show ?thesis
    by (simp add: find_problems_eq)
qed

lemma problems_of_lines_eq:
  "problems_of_lines cfg lines =
     (if \<exists>l \<in> set lines. max_str_digits < spike_digits l then Inl ValueError
      else Inr (emitted cfg None lines))"
  by (simp add: problems_of_lines_def problems_lines_eq)

lemma anchor_line_problems:
  assumes "match_at TIMESTAMP_rx line = Some m"
  shows "line_anchor t line = Some (grp m 1) \<and>
         (\<forall>p \<in> set (line_problems cfg t line). p_timestamp p = grp m 1) \<and>
         (search ERROR_rx line \<noteq> None \<longrightarrow> line_problems cfg t line \<noteq> [])"
proof -
  have "24 \<le> length (grp m 1)" using assms by (rule TIMESTAMP_group)
  then have "grp m 1 \<noteq> []" by auto
  then show ?thesis
    using assms
    by (auto simp: line_problems_def line_anchor_def timestamp_label_def split: option.splits)
qed

lemma spike_line:
  "map p_description (filter (\<lambda>p. p_type p = ''Resource Spike'') (line_problems cfg t line)) =
     map spike_description (filter (\<lambda>n. ram_spike_mb cfg < int n) (captured_spikes [line]))"
  by (simp add: line_problems_def captured_spikes_def split: option.splits)

lemma captured_spikes_Cons:
  "captured_spikes (line # lines) = captured_spikes [line] @ captured_spikes lines"
  by (simp add: captured_spikes_def)

lemma spike_lines:
  "map p_description (filter (\<lambda>p. p_type p = ''Resource Spike'') (emitted cfg t lines)) =
     map spike_description (filter (\<lambda>n. ram_spike_mb cfg < int n) (captured_spikes lines))"
proof (induction lines arbitrary: t)
  case Nil
  then show ?case by (simp add: captured_spikes_def)
next
  case (Cons line lines)
  show ?case
    using Cons.IH [of "line_anchor t line"] spike_line [of cfg t line]
      captured_spikes_Cons [of line lines]
    by simp
qed

text \<open>
  Where no line has a resource spike capture of more than 4300 digits, \<^verbatim>\<open>find_problems\<close>
  returns, and its Resource Spike problems are, in line order, one for each line that
  matches \<^verbatim>\<open>RAM:.*?Used \+(\d+) MB\<close> with a captured integer strictly above the threshold
  \<^verbatim>\<open>ram_spike_mb\<close>, described by that integer. With the default threshold 500 the line
  \<^verbatim>\<open>RAM: Used +400 MB\<close> gives no problem and \<^verbatim>\<open>RAM: Used +600 MB\<close> exactly one, with the
  description \<^verbatim>\<open>RAM spike of 600 MB detected\<close>.
\<close>

lemma resource_spike_within_limit:
  assumes "\<forall>l \<in> set (splitlines content). spike_digits l \<le> max_str_digits"
  shows "\<exists>problems. find_problems cfg content = Inr problems \<and>
           map p_description (filter (\<lambda>p. p_type p = ''Resource Spike'') problems) =
             map spike_description
               (filter (\<lambda>n. ram_spike_mb cfg < int n) (captured_spikes (splitlines content)))"
proof -
  have "\<not> (\<exists>l \<in> set (splitlines content). max_str_digits < spike_digits l)"
    using assms by (auto simp: not_less)
  then have "find_problems cfg content = Inr (emitted cfg None (splitlines content))"
    by (simp add: find_problems_eq)
  then show ?thesis
    using spike_lines [of cfg None "splitlines content"] by simp
qed

lemma resource_spike_examples:
  "ram_spike_mb default_finder = 500 \<and>
   find_problems default_finder ''RAM: Used +400 MB'' = Inr [] \<and>
   find_problems default_finder ''RAM: Used +600 MB'' =
     Inr [\<lparr>p_timestamp = ''Unknown'', p_type = ''Resource Spike'', p_source = ''Memory Usage'',
           p_description = ''RAM spike of 600 MB detected''\<rparr>]"
proof (intro conjI)
  show "ram_spike_mb default_finder = 500"
    by (simp add: default_finder_def)
  show "find_problems default_finder ''RAM: Used +400 MB'' = Inr []"
    by code_simp
  show "find_problems default_finder ''RAM: Used +600 MB'' =
     Inr [\<lparr>p_timestamp = ''Unknown'', p_type = ''Resource Spike'', p_source = ''Memory Usage'',
           p_description = ''RAM spike of 600 MB detected''\<rparr>]"
    by code_simp
qed

lemma is_linebreak_CR: "is_linebreak (CHR 0x0D)"
  by (simp add: is_linebreak_def ascii_def)

lemma splitlines_from_plain:
  "\<forall>c \<in> set s. \<not> is_linebreak c \<Longrightarrow>
   splitlines_from cur s = (if cur @ s = [] then [] else [cur @ s])"
proof (induction cur s rule: splitlines_from.induct)
  case (1 cur)
  then show ?case by simp
next
  case (2 cur c)
  then show ?case by simp
next
  case (3 cur c d cs)
  have c: "\<not> is_linebreak c" and rest: "\<forall>x \<in> set (d # cs). \<not> is_linebreak x"
    using "3.prems" by simp_all
  have cr: "c \<noteq> CHR 0x0D" using c is_linebreak_CR by auto
  have "splitlines_from (cur @ [c]) (d # cs) = [(cur @ [c]) @ d # cs]"
    using "3.IH"(3) cr c rest by simp
  then show ?case using cr c by simp
qed

lemma digit_nine: "digit CHR ''9''"
  by (simp add: digit_def)

lemma takeWhile_nines:
  "takeWhile digit (replicate n CHR ''9'' @ '' MB'') = replicate n CHR ''9''"
  by (induction n) (simp_all add: digit_def)

lemma ms_digits_nines:
  assumes "0 < n"
  shows "\<exists>rest. ms [Rep digit 1 None True] (replicate n CHR ''9'' @ '' MB'') =
           ([], '' MB'') # rest"
proof -
  have "[1..<Suc n] = [1..<n] @ [n]" using assms by simp
  then have c: "counts digit 1 None True (replicate n CHR ''9'' @ '' MB'') = n # rev [1..<n]"
    by (simp add: counts_def takeWhile_nines)
  show ?thesis
    by (simp only: ms.simps c) simp
qed

lemma ms_group_nines:
  assumes "0 < n"
  shows "\<exists>rest. ms [Grp [Rep digit 1 None True], Lit '' MB''] (replicate n CHR ''9'' @ '' MB'') =
           ([replicate n CHR ''9''], []) # rest"
proof -
  obtain rest where r: "ms [Rep digit 1 None True] (replicate n CHR ''9'' @ '' MB'') =
      ([], '' MB'') # rest"
    using ms_digits_nines [OF assms] by blast
  have l: "ms [Lit '' MB''] '' MB'' = [([], [])]" by simp
  show ?thesis
    by (simp only: ms.simps(5) r) (simp add: l del: ms.simps)
qed

lemma ms_spike_nines:
  assumes "0 < n"
  shows "\<exists>rest. ms RESOURCE_SPIKE_rx (''RAM: Used +'' @ replicate n CHR ''9'' @ '' MB'') =
           ([replicate n CHR ''9''], []) # rest"
proof -
  let ?t = "replicate n CHR ''9'' @ '' MB''"
  let ?G = "[Grp [Rep digit 1 None True], Lit '' MB'']"
  define s1 where "s1 = '' Used +'' @ ?t"
  define N where "N = length (takeWhile any_chr s1)"
  obtain rest where g: "ms ?G ?t = ([replicate n CHR ''9''], []) # rest"
    using ms_group_nines [OF assms] by blast
  have f0: "ms (Lit ''Used +'' # ?G) s1 = []"
    unfolding s1_def by (simp only: ms.simps(2)) simp
  have "ms (Lit ''Used +'' # ?G) (''Used +'' @ ?t) = ms ?G ?t"
    by (simp only: ms.simps(2)) simp
  moreover have "drop 1 s1 = ''Used +'' @ ?t"
    unfolding s1_def by simp
  ultimately have f1: "ms (Lit ''Used +'' # ?G) (drop 1 s1) = ([replicate n CHR ''9''], []) # rest"
    using g by (simp only:)
  have pos: "0 < N"
    unfolding N_def s1_def by (simp add: any_chr_def)
  have "counts any_chr 0 None False s1 = [0..<Suc N]"
    unfolding N_def by (simp only: counts_def Let_def option.case if_False)
  also have "\<dots> = 0 # 1 # [2..<Suc N]"
    using pos by (simp add: upt_conv_Cons numeral_2_eq_2)
  finally have c: "counts any_chr 0 None False s1 = 0 # 1 # [2..<Suc N]" .
  have "ms (Rep any_chr 0 None False # Lit ''Used +'' # ?G) s1 =
      ms (Lit ''Used +'' # ?G) (drop 0 s1) @ ms (Lit ''Used +'' # ?G) (drop 1 s1) @
      concat (map (\<lambda>k. ms (Lit ''Used +'' # ?G) (drop k s1)) [2..<Suc N])"
    by (simp only: ms.simps(4) c list.map concat.simps)
  also have "\<dots> = ([replicate n CHR ''9''], []) #
      (rest @ concat (map (\<lambda>k. ms (Lit ''Used +'' # ?G) (drop k s1)) [2..<Suc N]))"
    by (simp only: drop_0 f0 f1 append_Nil append_Cons)
  finally have r: "\<exists>more. ms (Rep any_chr 0 None False # Lit ''Used +'' # ?G) s1 =
      ([replicate n CHR ''9''], []) # more"
    by blast
  have "ms RESOURCE_SPIKE_rx (''RAM:'' @ s1) =
      ms (Rep any_chr 0 None False # Lit ''Used +'' # ?G) s1"
    unfolding RESOURCE_SPIKE_rx_def by (simp only: ms.simps(2)) simp
  moreover have "''RAM: Used +'' @ ?t = ''RAM:'' @ s1"
    unfolding s1_def by simp
  ultimately show ?thesis using r by (simp only:)
qed

lemma search_spike_nines:
  assumes "0 < n"
  shows "search RESOURCE_SPIKE_rx (''RAM: Used +'' @ replicate n CHR ''9'' @ '' MB'') =
           Some [''RAM: Used +'' @ replicate n CHR ''9'' @ '' MB'', replicate n CHR ''9'']"
proof -
  let ?line = "''RAM: Used +'' @ replicate n CHR ''9'' @ '' MB''"
  obtain rest where "ms RESOURCE_SPIKE_rx ?line = ([replicate n CHR ''9''], []) # rest"
    using ms_spike_nines [OF assms] by blast
  then have m: "match_at RESOURCE_SPIKE_rx ?line = Some [?line, replicate n CHR ''9'']"
    by (simp add: match_at_def)
  have "?line = CHR ''R'' # (''AM: Used +'' @ replicate n CHR ''9'' @ '' MB'')" by simp
  then obtain cs where cs: "?line = CHR ''R'' # cs" by blast
  have "search RESOURCE_SPIKE_rx (CHR ''R'' # cs) = Some [?line, replicate n CHR ''9'']"
    using m cs by (simp only: search.simps option.case)
  then show ?thesis using cs by (simp only:)
qed

lemma digits_value_nines_from:
  "a + n \<le> foldl (\<lambda>a c. 10 * a + digit_val c) a (replicate n CHR ''9'')"
proof (induction n arbitrary: a)
  case 0
  then show ?case by simp
next
  case (Suc n)
  have "10 * a + digit_val CHR ''9'' + n \<le>
      foldl (\<lambda>a c. 10 * a + digit_val c) (10 * a + digit_val CHR ''9'') (replicate n CHR ''9'')"
    by (rule Suc.IH)
  moreover have "digit_val CHR ''9'' = 9" by (simp add: digit_val_def)
  ultimately show ?case by simp
qed

lemma digits_value_nines: "n \<le> digits_value (replicate n CHR ''9'')"
  using digits_value_nines_from [of 0 n] by (simp add: digits_value_def)

text \<open>
  C6. A Resource Spike problem is due for a line that matches
  \<^verbatim>\<open>RAM:.*?Used \+(\d+) MB\<close> exactly when the captured integer is strictly above the
  threshold. The code misses the lines whose capture has more than 4300 digits: on
  \<^verbatim>\<open>RAM: Used +\<close>, 4301 times the digit 9, and \<^verbatim>\<open> MB\<close> the pattern matches and the captured
  integer is above the default threshold 500, but \<^verbatim>\<open>int\<close> raises \<^verbatim>\<open>ValueError\<close>, which
  \<^verbatim>\<open>find_problems\<close> does not catch, and no problem is returned.
\<close>

theorem resource_spike_overflow_raises:
  "search RESOURCE_SPIKE_rx spike_overflow_line =
     Some [spike_overflow_line, replicate 4301 CHR ''9''] \<and>
   ram_spike_mb default_finder < int (digits_value (replicate 4301 CHR ''9'')) \<and>
   find_problems default_finder spike_overflow_line = Inl ValueError"
proof (intro conjI)
  show s: "search RESOURCE_SPIKE_rx spike_overflow_line =
     Some [spike_overflow_line, replicate 4301 CHR ''9'']"
    unfolding spike_overflow_line_def by (rule search_spike_nines) simp
  have "4301 \<le> digits_value (replicate 4301 CHR ''9'')" by (rule digits_value_nines)
  then show "ram_spike_mb default_finder < int (digits_value (replicate 4301 CHR ''9''))"
    by (simp add: default_finder_def)
  have "\<forall>c \<in> set spike_overflow_line. \<not> is_linebreak c"
    by (auto simp: spike_overflow_line_def is_linebreak_def ascii_def)
  then have lines: "splitlines spike_overflow_line = [spike_overflow_line]"
    by (simp add: splitlines_def splitlines_from_plain spike_overflow_line_def)
  have "spike_digits spike_overflow_line = 4301"
    by (simp add: spike_digits_def s grp_def)
  then have "max_str_digits < spike_digits spike_overflow_line"
    by (simp add: max_str_digits_def)
  then show "find_problems default_finder spike_overflow_line = Inl ValueError"
    by (simp add: find_problems_eq lines)
qed

text \<open>
  C10. The anchor check of a line runs before its problem checks: when a line of the
  content is an anchor, every problem emitted for that line (the problems at the positions
  after those of the lines before it) carries the timestamp of that line itself, which is
  not \<^verbatim>\<open>Unknown\<close>; and a line that matches the error pattern emits a problem. The
  problems are those \<^verbatim>\<open>find_problems\<close> returns, which it does when no line has a resource
  spike capture of more than 4300 digits.
\<close>

theorem anchor_line_labels_own_problems:
  assumes "splitlines content = pre @ line # post"
    and "match_at TIMESTAMP_rx line = Some m"
    and "\<forall>l \<in> set (splitlines content). spike_digits l \<le> max_str_digits"
  shows "\<exists>problems before upto.
           find_problems cfg content = Inr problems \<and>
           problems_of_lines cfg pre = Inr before \<and>
           problems_of_lines cfg (pre @ [line]) = Inr upto \<and>
           (\<forall>i. length before \<le> i \<and> i < length upto \<longrightarrow>
                p_timestamp (problems ! i) = grp m 1) \<and>
           (search ERROR_rx line \<noteq> None \<longrightarrow> length before < length upto) \<and>
           grp m 1 \<noteq> ''Unknown''"
proof -
  let ?t = "anchor_after None pre"
  let ?P = "emitted cfg None pre"
  let ?N = "line_problems cfg ?t line"
  let ?R = "emitted cfg (line_anchor ?t line) post"
  have ok: "\<not> (\<exists>l \<in> set (pre @ line # post). max_str_digits < spike_digits l)"
    using assms(1,3) by (auto simp: not_less)
  then have ok_pre: "\<not> (\<exists>l \<in> set pre. max_str_digits < spike_digits l)"
    and ok_upto: "\<not> (\<exists>l \<in> set (pre @ [line]). max_str_digits < spike_digits l)"
    by auto
  have all: "find_problems cfg content = Inr (?P @ ?N @ ?R)"
    using ok assms(1) by (simp add: find_problems_eq emitted_append)
  have before: "problems_of_lines cfg pre = Inr ?P"
    using ok_pre by (simp add: problems_of_lines_eq)
  have upto: "problems_of_lines cfg (pre @ [line]) = Inr (?P @ ?N)"
    using ok_upto by (simp add: problems_of_lines_eq emitted_append)
  have anchor: "(\<forall>p \<in> set ?N. p_timestamp p = grp m 1) \<and>
      (search ERROR_rx line \<noteq> None \<longrightarrow> ?N \<noteq> [])"
    using anchor_line_problems [where cfg = cfg and t = ?t, OF assms(2)] by blast
  have own: "p_timestamp ((?P @ ?N @ ?R) ! i) = grp m 1"
    if "length ?P \<le> i" and "i < length (?P @ ?N)" for i
  proof -
    have hi: "i - length ?P < length ?N" using that by simp
    have "(?P @ ?N @ ?R) ! i = (?N @ ?R) ! (i - length ?P)"
      using that(1) by (simp add: nth_append)
    also have "\<dots> = ?N ! (i - length ?P)"
      using hi by (simp add: nth_append)
    finally have "(?P @ ?N @ ?R) ! i \<in> set ?N"
      using hi by simp
    then show ?thesis using anchor by blast
  qed
  have "24 \<le> length (grp m 1)" using assms(2) by (rule TIMESTAMP_group)
  then have unknown: "grp m 1 \<noteq> ''Unknown''" by auto
  have more: "search ERROR_rx line \<noteq> None \<longrightarrow> length ?P < length (?P @ ?N)"
    using anchor by simp
  show ?thesis
    using all before upto own more unknown by blast
qed

theorem anchor_line_labels_own_problems_witness:
  "map p_timestamp (projr (find_problems default_finder anchor_content)) =
     [''Unknown'', ''27-Sep-2025 13:08:35.485'', ''27-Sep-2025 13:08:35.485''] \<and>
   length (projr (problems_of_lines default_finder [''fail before''])) = 1 \<and>
   p_timestamp (projr (find_problems default_finder anchor_content) ! 1) =
     ''27-Sep-2025 13:08:35.485''"
proof -
  let ?m = "[anchor_error_line, ''27-Sep-2025 13:08:35.485'', ''cannot open file'']"
  have h1: "splitlines anchor_content = [''fail before''] @ anchor_error_line # [''fail after'']"
    by code_simp
  have h2: "match_at TIMESTAMP_rx anchor_error_line = Some ?m"
    by code_simp
  have h3: "\<forall>l \<in> set (splitlines anchor_content). spike_digits l \<le> max_str_digits"
    unfolding h1 by code_simp
  have v1: "map p_timestamp (projr (find_problems default_finder anchor_content)) =
     [''Unknown'', ''27-Sep-2025 13:08:35.485'', ''27-Sep-2025 13:08:35.485'']"
    by code_simp
  have v2: "length (projr (problems_of_lines default_finder [''fail before''])) = 1"
    by code_simp
  have v3: "length (projr (problems_of_lines default_finder
      ([''fail before''] @ [anchor_error_line]))) = 2"
    by code_simp
  obtain problems before upto where
    a: "find_problems default_finder anchor_content = Inr problems"
    and b: "problems_of_lines default_finder [''fail before''] = Inr before"
    and c: "problems_of_lines default_finder ([''fail before''] @ [anchor_error_line]) = Inr upto"
    and d: "\<forall>i. length before \<le> i \<and> i < length upto \<longrightarrow>
              p_timestamp (problems ! i) = grp ?m 1"
    using anchor_line_labels_own_problems [OF h1 h2 h3, of default_finder] by blast
  have "length before = 1" using b v2 by simp
  moreover have "length upto = 2" using c v3 by simp
  ultimately have "p_timestamp (problems ! 1) = grp ?m 1" using d by simp
  then have "p_timestamp (projr (find_problems default_finder anchor_content) ! 1) =
     ''27-Sep-2025 13:08:35.485''"
    using a by (simp add: grp_def)
  then show ?thesis using v1 v2 by blast
qed

section \<open>User names of the recorded models\<close>







end
